theory Spec2Isabelle
  imports Main "HOL-Library.Word"
begin

section \<open>Machine types and constants of the sketch\<close>

text \<open>
  The sketch targets the AVR Arduino core (it uses \<^verbatim>\<open>EEPROM.h\<close>, \<^verbatim>\<open>PROGMEM\<close> and
  \<^verbatim>\<open>pgm_read_word\<close>): \<^verbatim>\<open>unsigned int\<close> is 16 bits wide and \<^verbatim>\<open>unsigned long\<close>
  (the type of \<^verbatim>\<open>millis()\<close>) is 32 bits wide. Both wrap around. The \<^verbatim>\<open>int\<close> variables
  of the sketch only ever hold the small constants of its \<^verbatim>\<open>#define\<close>s and row and page
  numbers; they are modelled as \<open>int\<close>. The build-time switches \<^verbatim>\<open>DEBUG_ENABLED\<close>,
  \<^verbatim>\<open>APPLY_BINARY_TRIGGER_TO_FULL_AUTO\<close>, \<^verbatim>\<open>APPLY_BINARY_TRIGGER_TO_FULL_AUTO_BURST\<close> and
  \<^verbatim>\<open>USING_OLED_HEIGHT_32\<close> are commented out in the source and the model follows the code
  that is compiled that way.
\<close>

type_synonym uint = "16 word"
type_synonym ulong = "32 word"

datatype level = LOW | HIGH

abbreviation (input) BUTTON_PRESSED :: level where "BUTTON_PRESSED \<equiv> LOW"
abbreviation (input) BUTTON_RELEASED :: level where "BUTTON_RELEASED \<equiv> HIGH"
abbreviation (input) SOLENOID_ON :: level where "SOLENOID_ON \<equiv> HIGH"
abbreviation (input) SOLENOID_OFF :: level where "SOLENOID_OFF \<equiv> LOW"

abbreviation (input) STATUS_IDLE :: int where "STATUS_IDLE \<equiv> 0"
abbreviation (input) STATUS_SEMI_AUTO :: int where "STATUS_SEMI_AUTO \<equiv> 1"
abbreviation (input) STATUS_FULL_AUTO :: int where "STATUS_FULL_AUTO \<equiv> 2"
abbreviation (input) STATUS_BINARY_TRIGGER_TAIL :: int where "STATUS_BINARY_TRIGGER_TAIL \<equiv> 3"
abbreviation (input) STATUS_RELOAD :: int where "STATUS_RELOAD \<equiv> 4"
abbreviation (input) STATUS_MENU :: int where "STATUS_MENU \<equiv> 5"

abbreviation (input) RELOAD_WAITING_FOR_MAGAZINE_OUT :: int where "RELOAD_WAITING_FOR_MAGAZINE_OUT \<equiv> 0"
abbreviation (input) RELOAD_WAITING_FOR_MAGAZINE_IN :: int where "RELOAD_WAITING_FOR_MAGAZINE_IN \<equiv> 1"

abbreviation (input) MENU_CONTINUE :: int where "MENU_CONTINUE \<equiv> 0"
abbreviation (input) MENU_SAVE_AND_EXIT :: int where "MENU_SAVE_AND_EXIT \<equiv> 1"
abbreviation (input) MENU_DISCARD_AND_EXIT :: int where "MENU_DISCARD_AND_EXIT \<equiv> 2"

abbreviation (input) ID_MENU_EXIT_MESSAGE_NOT_MODIFIED :: int where "ID_MENU_EXIT_MESSAGE_NOT_MODIFIED \<equiv> 0"
abbreviation (input) ID_MENU_EXIT_MESSAGE_DISCARDED :: int where "ID_MENU_EXIT_MESSAGE_DISCARDED \<equiv> 1"
abbreviation (input) ID_MENU_EXIT_MESSAGE_SAVED :: int where "ID_MENU_EXIT_MESSAGE_SAVED \<equiv> 2"

abbreviation (input) MENU_EXIT_MESSAGE_DURATION_MS :: ulong where "MENU_EXIT_MESSAGE_DURATION_MS \<equiv> 2000"

text \<open>Pin assignments.\<close>

abbreviation (input) triggerPin :: nat where "triggerPin \<equiv> 3"
abbreviation (input) fireSelectorPin :: nat where "fireSelectorPin \<equiv> 4"
abbreviation (input) magazinePin :: nat where "magazinePin \<equiv> 5"
abbreviation (input) joyUpPin :: nat where "joyUpPin \<equiv> 8"
abbreviation (input) joyLeftPin :: nat where "joyLeftPin \<equiv> 9"
abbreviation (input) joySelectPin :: nat where "joySelectPin \<equiv> 7"
abbreviation (input) joyRightPin :: nat where "joyRightPin \<equiv> 11"
abbreviation (input) joyDownPin :: nat where "joyDownPin \<equiv> 10"
abbreviation (input) solenoidPin :: nat where "solenoidPin \<equiv> 2"
abbreviation (input) muzzlePin :: nat where "muzzlePin \<equiv> 6"

text \<open>Button ids: the 0-based index of the button in the array of buttons data.\<close>

abbreviation (input) ID_BUTTON_FIRE_SELECTOR :: nat where "ID_BUTTON_FIRE_SELECTOR \<equiv> 0"
abbreviation (input) ID_BUTTON_MAGAZINE :: nat where "ID_BUTTON_MAGAZINE \<equiv> 1"
abbreviation (input) ID_BUTTON_JOY_UP :: nat where "ID_BUTTON_JOY_UP \<equiv> 2"
abbreviation (input) ID_BUTTON_JOY_LEFT :: nat where "ID_BUTTON_JOY_LEFT \<equiv> 3"
abbreviation (input) ID_BUTTON_JOY_SELECT :: nat where "ID_BUTTON_JOY_SELECT \<equiv> 4"
abbreviation (input) ID_BUTTON_JOY_RIGHT :: nat where "ID_BUTTON_JOY_RIGHT \<equiv> 5"
abbreviation (input) ID_BUTTON_JOY_DOWN :: nat where "ID_BUTTON_JOY_DOWN \<equiv> 6"
abbreviation (input) ID_BUTTON_INVALID :: int where "ID_BUTTON_INVALID \<equiv> - 1"

section \<open>Data model\<close>

record ButtonData =
  pin :: nat
  startTimeMs :: ulong
  buttonStatus :: level
  lastValidStatus :: level
  precStatusIsPressed :: bool

definition mkButton :: "nat \<Rightarrow> ButtonData" where
  "mkButton p = \<lparr>pin = p, startTimeMs = 0, buttonStatus = BUTTON_RELEASED,
     lastValidStatus = BUTTON_RELEASED, precStatusIsPressed = False\<rparr>"

definition buttons_init :: "ButtonData list" where
  "buttons_init = [mkButton fireSelectorPin, mkButton magazinePin, mkButton joyUpPin,
     mkButton joyLeftPin, mkButton joySelectPin, mkButton joyRightPin, mkButton joyDownPin]"

definition numButtons :: nat where
  "numButtons = length buttons_init"

definition buttonsDebouncingTimeMs :: ulong where
  "buttonsDebouncingTimeMs = 50"

record Settings =
  shotDelayMs :: uint
  burstDelayMs :: uint
  dwellMs :: uint
  triggerDebouncingMs :: uint
  numShotsPerBurst :: uint
  shotLimit :: uint
  fullAutoBurst :: bool
  binaryTrigger :: bool
  forceReload :: bool
  muzzleFlash :: bool
  invertedFireSelector :: bool

definition defaultSettings :: Settings where
  "defaultSettings = \<lparr>shotDelayMs = 200, burstDelayMs = 400, dwellMs = 200,
     triggerDebouncingMs = 50, numShotsPerBurst = 3, shotLimit = 30,
     fullAutoBurst = False, binaryTrigger = False, forceReload = True,
     muzzleFlash = False, invertedFireSelector = False\<rparr>"

text \<open>
  The menu's \<^verbatim>\<open>SettingValue\<close>: a type tag and a union. The pointer into \<^verbatim>\<open>tempSettings\<close>
  is modelled by the id of the setting whose field it addresses. The global is
  zero-initialised, so before the first \<^verbatim>\<open>getSettingValue\<close> its tag is neither
  \<^verbatim>\<open>SETTING_TYPE_BOOL\<close> nor \<^verbatim>\<open>SETTING_TYPE_UINT\<close>.
\<close>

datatype SettingValue =
    NoSettingValue
  | BoolSettingValue int bool
  | UIntSettingValue int uint uint uint uint

text \<open>
  What the program does to the outside: pin writes, blocking delays, the menu's exit
  message and writes of the settings to the EEPROM. The drawing calls of the OLED library
  only write to the display and are left out.
\<close>

datatype Event =
    DigitalWrite nat level
  | Delay ulong
  | MenuExitMessage int

record FcuState =
  buttons :: "ButtonData list"
  settings :: Settings
  shotCount :: uint
  currBurstShotCount :: uint
  reloadStatus :: int
  status :: int
  menuMode :: int
  currMenuPage :: int
  currMenuPageNumSettings :: int
  currMenuCursorPos :: int
  currMenuPageFirstSettingId :: int
  currPressStartTimeMs :: ulong
  currPressButtonId :: int
  lastModificationTimeMs :: ulong
  tempSettings :: Settings
  settingValue :: SettingValue
  eeprom :: "Settings option"
  outLog :: "Event list"

text \<open>
  What one iteration of \<^verbatim>\<open>loop()\<close> reads from the outside: the value \<^verbatim>\<open>millis()\<close>
  returns in the poll of each button (by button id), the level \<^verbatim>\<open>digitalRead\<close> returns
  for each pin during \<^verbatim>\<open>readAllButtons()\<close>, the level \<^verbatim>\<open>digitalRead\<close> returns for each
  pin when the state handler reads one, and the value \<^verbatim>\<open>millis()\<close> returns when the
  state handler reads the clock (each handler reads each of them at most once).
\<close>

record Inputs =
  pollMillis :: "nat \<Rightarrow> ulong"
  pollPins :: "nat \<Rightarrow> level"
  handlerPins :: "nat \<Rightarrow> level"
  handlerMillis :: ulong

definition emit :: "Event list \<Rightarrow> FcuState \<Rightarrow> FcuState" where
  "emit es s = s\<lparr>outLog := outLog s @ es\<rparr>"

section \<open>Buttons input and debouncing\<close>

text \<open>
  The functions of the source take a button id and work on \<^verbatim>\<open>buttons[buttonId]\<close>. Each is
  modelled on one \<open>ButtonData\<close> first (suffix \<open>_bd\<close>) and then on the array. Every id
  the source passes is one of the seven constants, inside the array.
\<close>

definition buttonIsPressed :: "nat \<Rightarrow> FcuState \<Rightarrow> bool" where
  "buttonIsPressed buttonId s = (lastValidStatus (buttons s ! buttonId) = BUTTON_PRESSED)"

definition buttonPressDuration_bd :: "ulong \<Rightarrow> ButtonData \<Rightarrow> ulong" where
  "buttonPressDuration_bd now bd =
     (if lastValidStatus bd = BUTTON_PRESSED then now - startTimeMs bd else 0)"

definition buttonPressDuration :: "ulong \<Rightarrow> nat \<Rightarrow> FcuState \<Rightarrow> ulong" where
  "buttonPressDuration now buttonId s = buttonPressDuration_bd now (buttons s ! buttonId)"

definition readButtonWithDebouncing_bd :: "ulong \<Rightarrow> level \<Rightarrow> ButtonData \<Rightarrow> ButtonData" where
  "readButtonWithDebouncing_bd timeNow statusNow bd =
     (let bd1 = (if statusNow \<noteq> buttonStatus bd
                 then bd\<lparr>startTimeMs := timeNow, buttonStatus := statusNow\<rparr>
                 else bd)
      in if timeNow - startTimeMs bd1 > buttonsDebouncingTimeMs
         then bd1\<lparr>lastValidStatus := buttonStatus bd1\<rparr>
         else bd1)"

definition readButtonWithDebouncing :: "Inputs \<Rightarrow> nat \<Rightarrow> FcuState \<Rightarrow> FcuState" where
  "readButtonWithDebouncing inp buttonId s =
     (let bd = buttons s ! buttonId
      in s\<lparr>buttons := (buttons s)[buttonId :=
            readButtonWithDebouncing_bd (pollMillis inp buttonId) (pollPins inp (pin bd)) bd]\<rparr>)"

definition thereIsANewPress_bd :: "ButtonData \<Rightarrow> bool \<times> ButtonData" where
  "thereIsANewPress_bd bd =
     (if lastValidStatus bd \<noteq> BUTTON_PRESSED then (False, bd\<lparr>precStatusIsPressed := False\<rparr>)
      else if precStatusIsPressed bd then (False, bd)
      else (True, bd\<lparr>precStatusIsPressed := True\<rparr>))"

definition thereIsANewPress :: "nat \<Rightarrow> FcuState \<Rightarrow> bool \<times> FcuState" where
  "thereIsANewPress buttonId s =
     (case thereIsANewPress_bd (buttons s ! buttonId) of
        (r, bd') \<Rightarrow> (r, s\<lparr>buttons := (buttons s)[buttonId := bd']\<rparr>))"

fun readButtonsFrom :: "Inputs \<Rightarrow> nat \<Rightarrow> nat \<Rightarrow> FcuState \<Rightarrow> FcuState" where
  "readButtonsFrom inp i 0 s = s"
| "readButtonsFrom inp i (Suc k) s = readButtonsFrom inp (Suc i) k (readButtonWithDebouncing inp i s)"

definition readAllButtons :: "Inputs \<Rightarrow> FcuState \<Rightarrow> FcuState" where
  "readAllButtons inp s = readButtonsFrom inp 0 numButtons s"

section \<open>Button wrappers of the state machine\<close>

definition isTriggerPressed :: "Inputs \<Rightarrow> bool" where
  "isTriggerPressed inp = (handlerPins inp triggerPin = BUTTON_PRESSED)"

definition isMagazineButtonPressed :: "FcuState \<Rightarrow> bool" where
  "isMagazineButtonPressed s = buttonIsPressed ID_BUTTON_MAGAZINE s"

definition isFireSelectorInAutoPosition :: "FcuState \<Rightarrow> bool" where
  "isFireSelectorInAutoPosition s =
     (let isFireSelectorPressed = buttonIsPressed ID_BUTTON_FIRE_SELECTOR s
      in if invertedFireSelector (settings s) then \<not> isFireSelectorPressed
         else isFireSelectorPressed)"

definition thereIsANewJoySelectPress :: "FcuState \<Rightarrow> bool \<times> FcuState" where
  "thereIsANewJoySelectPress s = thereIsANewPress ID_BUTTON_JOY_SELECT s"

section \<open>Shot low level\<close>

text \<open>The part of \<^verbatim>\<open>doOneShot\<close> after the limit check: the two branches on muzzleFlash.\<close>

definition fireShot :: "FcuState \<Rightarrow> FcuState" where
  "fireShot s =
     (if muzzleFlash (settings s)
      then emit [DigitalWrite solenoidPin SOLENOID_ON, DigitalWrite muzzlePin HIGH,
                 Delay (ucast (dwellMs (settings s))),
                 DigitalWrite solenoidPin SOLENOID_OFF, DigitalWrite muzzlePin LOW,
                 Delay (ucast (shotDelayMs (settings s)))] s
      else emit [DigitalWrite solenoidPin SOLENOID_ON,
                 Delay (ucast (dwellMs (settings s))),
                 DigitalWrite solenoidPin SOLENOID_OFF,
                 Delay (ucast (shotDelayMs (settings s)))] s)"

definition doOneShot :: "FcuState \<Rightarrow> bool \<times> FcuState" where
  "doOneShot s =
     (if forceReload (settings s)
      then (if shotCount s \<ge> shotLimit (settings s) then (False, s)
            else (True, fireShot (s\<lparr>shotCount := shotCount s + 1\<rparr>)))
      else (True, fireShot s))"

section \<open>State transitions and state handlers\<close>

definition transitionToStatusIdle :: "FcuState \<Rightarrow> FcuState" where
  "transitionToStatusIdle s = s\<lparr>status := STATUS_IDLE\<rparr>"

definition transitionToStatusReload :: "FcuState \<Rightarrow> FcuState" where
  "transitionToStatusReload s =
     s\<lparr>reloadStatus := RELOAD_WAITING_FOR_MAGAZINE_OUT, status := STATUS_RELOAD\<rparr>"

definition transitionToStatusBinaryTriggerTail :: "FcuState \<Rightarrow> FcuState" where
  "transitionToStatusBinaryTriggerTail s =
     s\<lparr>currBurstShotCount := 0, status := STATUS_BINARY_TRIGGER_TAIL\<rparr>"

definition transitionToStatusSemiAuto :: "FcuState \<Rightarrow> FcuState" where
  "transitionToStatusSemiAuto s = s\<lparr>currBurstShotCount := 0, status := STATUS_SEMI_AUTO\<rparr>"

definition transitionToStatusFullAuto :: "FcuState \<Rightarrow> FcuState" where
  "transitionToStatusFullAuto s = s\<lparr>status := STATUS_FULL_AUTO\<rparr>"

text \<open>Returns true when the burst is done, otherwise false.\<close>

definition doNextShotAndGoToStatusReloadIfShotError :: "uint \<Rightarrow> FcuState \<Rightarrow> bool \<times> FcuState" where
  "doNextShotAndGoToStatusReloadIfShotError numShotsRequired s =
     (if currBurstShotCount s < numShotsRequired
      then (case doOneShot s of
              (ok, s1) \<Rightarrow>
                if \<not> ok then (False, transitionToStatusReload s1)
                else (False, s1\<lparr>currBurstShotCount := currBurstShotCount s1 + 1\<rparr>))
      else (True, s))"

definition manageStatusBinaryTriggerTail :: "FcuState \<Rightarrow> FcuState" where
  "manageStatusBinaryTriggerTail s =
     (case doNextShotAndGoToStatusReloadIfShotError (numShotsPerBurst (settings s)) s of
        (done, s1) \<Rightarrow> if \<not> done then s1 else transitionToStatusIdle s1)"

definition manageStatusSemiAuto :: "Inputs \<Rightarrow> FcuState \<Rightarrow> FcuState" where
  "manageStatusSemiAuto inp s =
     (case doNextShotAndGoToStatusReloadIfShotError (numShotsPerBurst (settings s)) s of
        (done, s1) \<Rightarrow>
          if \<not> done then s1
          else if isFireSelectorInAutoPosition s1 then transitionToStatusIdle s1
          else if isTriggerPressed inp
          then (if \<not> fullAutoBurst (settings s1) then s1
                else emit [Delay (ucast (burstDelayMs (settings s1)))]
                       (s1\<lparr>currBurstShotCount := 0\<rparr>))
          else if fullAutoBurst (settings s1)
          then transitionToStatusIdle
                 (emit [Delay (ucast (triggerDebouncingMs (settings s1)))] s1)
          else if binaryTrigger (settings s1) then transitionToStatusBinaryTriggerTail s1
          else transitionToStatusIdle
                 (emit [Delay (ucast (triggerDebouncingMs (settings s1)))] s1))"

definition manageStatusFullAuto :: "Inputs \<Rightarrow> FcuState \<Rightarrow> FcuState" where
  "manageStatusFullAuto inp s =
     (if \<not> isFireSelectorInAutoPosition s then transitionToStatusIdle s
      else (case doOneShot s of
              (ok, s1) \<Rightarrow>
                if \<not> ok then transitionToStatusReload s1
                else if \<not> isTriggerPressed inp
                then transitionToStatusIdle
                       (emit [Delay (ucast (triggerDebouncingMs (settings s1)))] s1)
                else s1))"

definition manageStatusReload :: "FcuState \<Rightarrow> FcuState" where
  "manageStatusReload s =
     (if reloadStatus s = RELOAD_WAITING_FOR_MAGAZINE_OUT
      then (if \<not> isMagazineButtonPressed s
            then s\<lparr>reloadStatus := RELOAD_WAITING_FOR_MAGAZINE_IN\<rparr> else s)
      else if reloadStatus s = RELOAD_WAITING_FOR_MAGAZINE_IN
      then (if isMagazineButtonPressed s
            then transitionToStatusIdle (s\<lparr>shotCount := 0\<rparr>) else s)
      else s)"

section \<open>The settings menu\<close>

abbreviation (input) MENU_MODE_DISPLAY_MENU_PAGE :: int where "MENU_MODE_DISPLAY_MENU_PAGE \<equiv> 0"
abbreviation (input) MENU_MODE_MODIFY_SETTING :: int where "MENU_MODE_MODIFY_SETTING \<equiv> 1"

abbreviation (input) ID_SETTING_SHOT_DELAY_MS :: int where "ID_SETTING_SHOT_DELAY_MS \<equiv> 0"
abbreviation (input) ID_SETTING_BURST_DELAY_MS :: int where "ID_SETTING_BURST_DELAY_MS \<equiv> 1"
abbreviation (input) ID_SETTING_DWELL_MS :: int where "ID_SETTING_DWELL_MS \<equiv> 2"
abbreviation (input) ID_SETTING_TRIGGER_DEBOUNCING_MS :: int where "ID_SETTING_TRIGGER_DEBOUNCING_MS \<equiv> 3"
abbreviation (input) ID_SETTING_NUM_SHOTS_PER_BURST :: int where "ID_SETTING_NUM_SHOTS_PER_BURST \<equiv> 4"
abbreviation (input) ID_SETTING_SHOT_LIMIT :: int where "ID_SETTING_SHOT_LIMIT \<equiv> 5"
abbreviation (input) ID_SETTING_FULL_AUTO_BURST :: int where "ID_SETTING_FULL_AUTO_BURST \<equiv> 6"
abbreviation (input) ID_SETTING_BINARY_TRIGGER :: int where "ID_SETTING_BINARY_TRIGGER \<equiv> 7"
abbreviation (input) ID_SETTING_FORCE_RELOAD :: int where "ID_SETTING_FORCE_RELOAD \<equiv> 8"
abbreviation (input) ID_SETTING_MUZZLE_FLASH :: int where "ID_SETTING_MUZZLE_FLASH \<equiv> 9"
abbreviation (input) ID_SETTINGS_INVERTED_FIRE_SELECTOR :: int where "ID_SETTINGS_INVERTED_FIRE_SELECTOR \<equiv> 10"

abbreviation (input) SETTING_DELAY_VALUE_MIN :: uint where "SETTING_DELAY_VALUE_MIN \<equiv> 1"
abbreviation (input) SETTING_DELAY_VALUE_MAX :: uint where "SETTING_DELAY_VALUE_MAX \<equiv> 2000"
abbreviation (input) SETTING_DELAY_LONG_PRESS_DELTA :: uint where "SETTING_DELAY_LONG_PRESS_DELTA \<equiv> 10"
abbreviation (input) SETTING_NUM_SHOT_VALUE_MIN :: uint where "SETTING_NUM_SHOT_VALUE_MIN \<equiv> 1"
abbreviation (input) SETTING_NUM_SHOT_VALUE_MAX :: uint where "SETTING_NUM_SHOT_VALUE_MAX \<equiv> 1000"
abbreviation (input) SETTING_NUM_SHOT_LONG_PRESS_DELTA :: uint where "SETTING_NUM_SHOT_LONG_PRESS_DELTA \<equiv> 5"

abbreviation (input) NUM_MAX_SETTINGS_PER_MENU_PAGE :: int where "NUM_MAX_SETTINGS_PER_MENU_PAGE \<equiv> 6"

definition numTotSettings :: int where
  "numTotSettings = 11"

definition numMenuPages :: int where
  "numMenuPages =
     (if numTotSettings mod NUM_MAX_SETTINGS_PER_MENU_PAGE \<noteq> 0
      then numTotSettings div NUM_MAX_SETTINGS_PER_MENU_PAGE + 1
      else numTotSettings div NUM_MAX_SETTINGS_PER_MENU_PAGE)"

definition minDurationForLongPressMs :: ulong where
  "minDurationForLongPressMs = 2000"

definition longPressIntervalBetweenIncDecMs :: ulong where
  "longPressIntervalBetweenIncDecMs = 100"

definition mapMenuRowToSettingId :: "int \<Rightarrow> FcuState \<Rightarrow> int" where
  "mapMenuRowToSettingId menuRow s =
     (let settingId = currMenuPageFirstSettingId s + menuRow
      in if settingId < numTotSettings then settingId else - 1)"

definition evalMenuPageNumSettingsByFirstSettingId :: "int \<Rightarrow> int" where
  "evalMenuPageNumSettingsByFirstSettingId firstSettingId =
     (let remainingSettings = max (numTotSettings - firstSettingId) 0
      in min NUM_MAX_SETTINGS_PER_MENU_PAGE remainingSettings)"

definition evalMenuPageNumSettings :: "int \<Rightarrow> int" where
  "evalMenuPageNumSettings page =
     evalMenuPageNumSettingsByFirstSettingId (page * NUM_MAX_SETTINGS_PER_MENU_PAGE)"

text \<open>
  Reading and writing a field of \<^verbatim>\<open>tempSettings\<close> through the pointer kept in the
  \<^verbatim>\<open>SettingValue\<close>. The pointers the source creates address the six numeric fields
  (ids 0 to 5) and the five flags (ids 6 to 10).
\<close>

definition loadUInt :: "int \<Rightarrow> Settings \<Rightarrow> uint" where
  "loadUInt p ts =
     (if p = ID_SETTING_SHOT_DELAY_MS then shotDelayMs ts
      else if p = ID_SETTING_BURST_DELAY_MS then burstDelayMs ts
      else if p = ID_SETTING_DWELL_MS then dwellMs ts
      else if p = ID_SETTING_TRIGGER_DEBOUNCING_MS then triggerDebouncingMs ts
      else if p = ID_SETTING_NUM_SHOTS_PER_BURST then numShotsPerBurst ts
      else if p = ID_SETTING_SHOT_LIMIT then shotLimit ts
      else 0)"

definition storeUInt :: "int \<Rightarrow> uint \<Rightarrow> Settings \<Rightarrow> Settings" where
  "storeUInt p v ts =
     (if p = ID_SETTING_SHOT_DELAY_MS then ts\<lparr>shotDelayMs := v\<rparr>
      else if p = ID_SETTING_BURST_DELAY_MS then ts\<lparr>burstDelayMs := v\<rparr>
      else if p = ID_SETTING_DWELL_MS then ts\<lparr>dwellMs := v\<rparr>
      else if p = ID_SETTING_TRIGGER_DEBOUNCING_MS then ts\<lparr>triggerDebouncingMs := v\<rparr>
      else if p = ID_SETTING_NUM_SHOTS_PER_BURST then ts\<lparr>numShotsPerBurst := v\<rparr>
      else if p = ID_SETTING_SHOT_LIMIT then ts\<lparr>shotLimit := v\<rparr>
      else ts)"

definition loadBool :: "int \<Rightarrow> Settings \<Rightarrow> bool" where
  "loadBool p ts =
     (if p = ID_SETTING_FULL_AUTO_BURST then fullAutoBurst ts
      else if p = ID_SETTING_BINARY_TRIGGER then binaryTrigger ts
      else if p = ID_SETTING_FORCE_RELOAD then forceReload ts
      else if p = ID_SETTING_MUZZLE_FLASH then muzzleFlash ts
      else if p = ID_SETTINGS_INVERTED_FIRE_SELECTOR then invertedFireSelector ts
      else False)"

definition storeBool :: "int \<Rightarrow> bool \<Rightarrow> Settings \<Rightarrow> Settings" where
  "storeBool p v ts =
     (if p = ID_SETTING_FULL_AUTO_BURST then ts\<lparr>fullAutoBurst := v\<rparr>
      else if p = ID_SETTING_BINARY_TRIGGER then ts\<lparr>binaryTrigger := v\<rparr>
      else if p = ID_SETTING_FORCE_RELOAD then ts\<lparr>forceReload := v\<rparr>
      else if p = ID_SETTING_MUZZLE_FLASH then ts\<lparr>muzzleFlash := v\<rparr>
      else if p = ID_SETTINGS_INVERTED_FIRE_SELECTOR then ts\<lparr>invertedFireSelector := v\<rparr>
      else ts)"

definition initSettingValueBool :: "int \<Rightarrow> FcuState \<Rightarrow> FcuState" where
  "initSettingValueBool valuePtr s =
     s\<lparr>settingValue := BoolSettingValue valuePtr (loadBool valuePtr (tempSettings s))\<rparr>"

definition initSettingValueUInt :: "int \<Rightarrow> uint \<Rightarrow> uint \<Rightarrow> uint \<Rightarrow> FcuState \<Rightarrow> FcuState" where
  "initSettingValueUInt valuePtr minVal maxVal longPressDelta s =
     s\<lparr>settingValue := UIntSettingValue valuePtr (loadUInt valuePtr (tempSettings s))
          minVal maxVal longPressDelta\<rparr>"

definition commitSetting :: "FcuState \<Rightarrow> FcuState" where
  "commitSetting s =
     (case settingValue s of
        BoolSettingValue p cur \<Rightarrow> s\<lparr>tempSettings := storeBool p cur (tempSettings s)\<rparr>
      | UIntSettingValue p cur mn mx d \<Rightarrow> s\<lparr>tempSettings := storeUInt p cur (tempSettings s)\<rparr>
      | NoSettingValue \<Rightarrow> s)"

definition getSettingValue :: "int \<Rightarrow> FcuState \<Rightarrow> FcuState" where
  "getSettingValue settingId s =
     (if settingId = ID_SETTING_SHOT_DELAY_MS \<or> settingId = ID_SETTING_BURST_DELAY_MS
         \<or> settingId = ID_SETTING_DWELL_MS \<or> settingId = ID_SETTING_TRIGGER_DEBOUNCING_MS
      then initSettingValueUInt settingId SETTING_DELAY_VALUE_MIN SETTING_DELAY_VALUE_MAX
             SETTING_DELAY_LONG_PRESS_DELTA s
      else if settingId = ID_SETTING_NUM_SHOTS_PER_BURST \<or> settingId = ID_SETTING_SHOT_LIMIT
      then initSettingValueUInt settingId SETTING_NUM_SHOT_VALUE_MIN SETTING_NUM_SHOT_VALUE_MAX
             SETTING_NUM_SHOT_LONG_PRESS_DELTA s
      else if settingId = ID_SETTING_FULL_AUTO_BURST \<or> settingId = ID_SETTING_BINARY_TRIGGER
         \<or> settingId = ID_SETTING_FORCE_RELOAD \<or> settingId = ID_SETTING_MUZZLE_FLASH
         \<or> settingId = ID_SETTINGS_INVERTED_FIRE_SELECTOR
      then initSettingValueBool settingId s
      else s)"

definition moveMenuCursorTo :: "int \<Rightarrow> FcuState \<Rightarrow> FcuState" where
  "moveMenuCursorTo menuRow s =
     (if menuRow = currMenuCursorPos s then s
      else if mapMenuRowToSettingId menuRow s = - 1 then s
      else s\<lparr>currMenuCursorPos := menuRow\<rparr>)"

definition displayMenuPage :: "int \<Rightarrow> int \<Rightarrow> FcuState \<Rightarrow> FcuState" where
  "displayMenuPage page menuRow s =
     (if page \<ge> numMenuPages then s
      else moveMenuCursorTo menuRow
             (s\<lparr>currMenuPage := page,
                currMenuPageFirstSettingId := page * NUM_MAX_SETTINGS_PER_MENU_PAGE,
                currMenuPageNumSettings :=
                  evalMenuPageNumSettingsByFirstSettingId (page * NUM_MAX_SETTINGS_PER_MENU_PAGE),
                currMenuCursorPos := - 1\<rparr>))"

definition moveMenuCursorUp :: "FcuState \<Rightarrow> FcuState" where
  "moveMenuCursorUp s =
     (if currMenuCursorPos s > 0 then moveMenuCursorTo (currMenuCursorPos s - 1) s
      else if currMenuPage s > 0
      then (let precPage = currMenuPage s - 1
            in displayMenuPage precPage (evalMenuPageNumSettings precPage - 1) s)
      else s)"

definition moveMenuCursorDown :: "FcuState \<Rightarrow> FcuState" where
  "moveMenuCursorDown s =
     (if currMenuCursorPos s < currMenuPageNumSettings s - 1
      then moveMenuCursorTo (currMenuCursorPos s + 1) s
      else if currMenuPage s < numMenuPages - 1 then displayMenuPage (currMenuPage s + 1) 0 s
      else s)"

definition displayPageForSettingModify :: "FcuState \<Rightarrow> FcuState" where
  "displayPageForSettingModify s =
     (let settingId = mapMenuRowToSettingId (currMenuCursorPos s) s
      in (getSettingValue settingId s)\<lparr>currPressButtonId := ID_BUTTON_INVALID\<rparr>)"

definition updateMenuPage :: "FcuState \<Rightarrow> int \<times> FcuState" where
  "updateMenuPage s =
     (case thereIsANewPress ID_BUTTON_JOY_UP s of (up, s1) \<Rightarrow>
      if up then (MENU_CONTINUE, moveMenuCursorUp s1) else
      case thereIsANewPress ID_BUTTON_JOY_DOWN s1 of (down, s2) \<Rightarrow>
      if down then (MENU_CONTINUE, moveMenuCursorDown s2) else
      case thereIsANewPress ID_BUTTON_JOY_LEFT s2 of (left, s3) \<Rightarrow>
      if left then (MENU_DISCARD_AND_EXIT, s3) else
      case thereIsANewPress ID_BUTTON_JOY_RIGHT s3 of (right, s4) \<Rightarrow>
      if right then (MENU_SAVE_AND_EXIT, s4) else
      case thereIsANewPress ID_BUTTON_JOY_SELECT s4 of (sel, s5) \<Rightarrow>
      if sel then (MENU_CONTINUE,
                   displayPageForSettingModify (s5\<lparr>menuMode := MENU_MODE_MODIFY_SETTING\<rparr>))
      else (MENU_CONTINUE, s5))"

definition updateMenuSettingBool :: "FcuState \<Rightarrow> FcuState" where
  "updateMenuSettingBool s =
     (let toggle = (\<lambda>t. case settingValue t of
                      BoolSettingValue p cur \<Rightarrow> t\<lparr>settingValue := BoolSettingValue p (\<not> cur)\<rparr>
                    | _ \<Rightarrow> t)
      in case thereIsANewPress ID_BUTTON_JOY_UP s of (up, s1) \<Rightarrow>
         if up then toggle s1 else
         case thereIsANewPress ID_BUTTON_JOY_DOWN s1 of (down, s2) \<Rightarrow>
         if down then toggle s2 else s2)"

definition incDecAndDisplaySettingValue :: "uint \<Rightarrow> bool \<Rightarrow> FcuState \<Rightarrow> FcuState" where
  "incDecAndDisplaySettingValue delta doIncrement s =
     (case settingValue s of
        UIntSettingValue p cur mn mx d \<Rightarrow>
          if doIncrement
          then (if cur < mx
                then s\<lparr>settingValue :=
                       UIntSettingValue p (if cur < mx - delta then cur + delta else mx) mn mx d\<rparr>
                else s)
          else (if cur > mn
                then s\<lparr>settingValue :=
                       UIntSettingValue p (if cur > mn + delta then cur - delta else mn) mn mx d\<rparr>
                else s)
      | _ \<Rightarrow> s)"

definition longPressDeltaOf :: "SettingValue \<Rightarrow> uint" where
  "longPressDeltaOf v = (case v of UIntSettingValue p cur mn mx d \<Rightarrow> d | _ \<Rightarrow> 0)"

definition manageCursorUpDown :: "Inputs \<Rightarrow> nat \<Rightarrow> bool \<Rightarrow> FcuState \<Rightarrow> bool \<times> FcuState" where
  "manageCursorUpDown inp buttonId doIncrement s =
     (case thereIsANewPress buttonId s of (new, s1) \<Rightarrow>
      if new
      then (True, incDecAndDisplaySettingValue 1 doIncrement
                    (s1\<lparr>currPressStartTimeMs := handlerMillis inp,
                        lastModificationTimeMs := handlerMillis inp,
                        currPressButtonId := int buttonId\<rparr>))
      else if \<not> buttonIsPressed buttonId s1
      then (False, if currPressButtonId s1 = int buttonId
                   then s1\<lparr>currPressButtonId := ID_BUTTON_INVALID\<rparr> else s1)
      else if currPressButtonId s1 \<noteq> int buttonId
      then (True, s1\<lparr>currPressButtonId := ID_BUTTON_INVALID\<rparr>)
      else (let timeNowMs = handlerMillis inp
            in if timeNowMs - currPressStartTimeMs s1 \<ge> minDurationForLongPressMs
                  \<and> timeNowMs - lastModificationTimeMs s1 \<ge> longPressIntervalBetweenIncDecMs
               then (True, incDecAndDisplaySettingValue (longPressDeltaOf (settingValue s1))
                             doIncrement (s1\<lparr>lastModificationTimeMs := timeNowMs\<rparr>))
               else (True, s1)))"

definition updateMenuSettingUInt :: "Inputs \<Rightarrow> FcuState \<Rightarrow> FcuState" where
  "updateMenuSettingUInt inp s =
     (case manageCursorUpDown inp ID_BUTTON_JOY_UP True s of (handled, s1) \<Rightarrow>
      if handled then s1
      else snd (manageCursorUpDown inp ID_BUTTON_JOY_DOWN False s1))"

definition updateMenuSetting :: "Inputs \<Rightarrow> FcuState \<Rightarrow> FcuState" where
  "updateMenuSetting inp s =
     (case thereIsANewPress ID_BUTTON_JOY_LEFT s of (left, s1) \<Rightarrow>
      if left
      then displayMenuPage (currMenuPage s1) (currMenuCursorPos s1)
             (s1\<lparr>menuMode := MENU_MODE_DISPLAY_MENU_PAGE\<rparr>)
      else
      case thereIsANewPress ID_BUTTON_JOY_RIGHT s1 of (right, s2) \<Rightarrow>
      if right
      then displayMenuPage (currMenuPage s2) (currMenuCursorPos s2)
             ((commitSetting s2)\<lparr>menuMode := MENU_MODE_DISPLAY_MENU_PAGE\<rparr>)
      else (case settingValue s2 of
              UIntSettingValue p cur mn mx d \<Rightarrow> updateMenuSettingUInt inp s2
            | BoolSettingValue p cur \<Rightarrow> updateMenuSettingBool s2
            | NoSettingValue \<Rightarrow> s2))"

definition commitSettings :: "FcuState \<Rightarrow> bool \<times> FcuState" where
  "commitSettings s =
     (if binaryTrigger (settings s) = binaryTrigger (tempSettings s)
         \<and> forceReload (settings s) = forceReload (tempSettings s)
         \<and> fullAutoBurst (settings s) = fullAutoBurst (tempSettings s)
         \<and> invertedFireSelector (settings s) = invertedFireSelector (tempSettings s)
         \<and> muzzleFlash (settings s) = muzzleFlash (tempSettings s)
         \<and> burstDelayMs (settings s) = burstDelayMs (tempSettings s)
         \<and> shotDelayMs (settings s) = shotDelayMs (tempSettings s)
         \<and> dwellMs (settings s) = dwellMs (tempSettings s)
         \<and> triggerDebouncingMs (settings s) = triggerDebouncingMs (tempSettings s)
         \<and> numShotsPerBurst (settings s) = numShotsPerBurst (tempSettings s)
         \<and> shotLimit (settings s) = shotLimit (tempSettings s)
      then (False, s)
      else (True, s\<lparr>settings := tempSettings s\<rparr>))"

definition displayMenuExitMessage :: "int \<Rightarrow> ulong \<Rightarrow> FcuState \<Rightarrow> FcuState" where
  "displayMenuExitMessage msgId delayMs s = emit [MenuExitMessage msgId, Delay delayMs] s"

definition displayFirstMenuPage :: "FcuState \<Rightarrow> FcuState" where
  "displayFirstMenuPage s =
     displayMenuPage 0 0 (s\<lparr>tempSettings := settings s, menuMode := MENU_MODE_DISPLAY_MENU_PAGE\<rparr>)"

definition updateMenu :: "Inputs \<Rightarrow> FcuState \<Rightarrow> int \<times> FcuState" where
  "updateMenu inp s =
     (if menuMode s = MENU_MODE_DISPLAY_MENU_PAGE then updateMenuPage s
      else if menuMode s = MENU_MODE_MODIFY_SETTING then (MENU_CONTINUE, updateMenuSetting inp s)
      else (MENU_CONTINUE, s))"

section \<open>Menu and idle status management, setup and loop\<close>

definition saveSettingsToEeprom :: "FcuState \<Rightarrow> FcuState" where
  "saveSettingsToEeprom s = s\<lparr>eeprom := Some (settings s)\<rparr>"

definition saveNewSettingsToEepromAndDisplayExitMessage :: "FcuState \<Rightarrow> FcuState" where
  "saveNewSettingsToEepromAndDisplayExitMessage s =
     (case commitSettings s of (modified, s1) \<Rightarrow>
      if \<not> modified
      then displayMenuExitMessage ID_MENU_EXIT_MESSAGE_NOT_MODIFIED MENU_EXIT_MESSAGE_DURATION_MS s1
      else displayMenuExitMessage ID_MENU_EXIT_MESSAGE_SAVED MENU_EXIT_MESSAGE_DURATION_MS
             (saveSettingsToEeprom s1))"

definition transitionToStatusMenu :: "FcuState \<Rightarrow> FcuState" where
  "transitionToStatusMenu s = (displayFirstMenuPage s)\<lparr>status := STATUS_MENU\<rparr>"

definition manageStatusMenu :: "Inputs \<Rightarrow> FcuState \<Rightarrow> FcuState" where
  "manageStatusMenu inp s =
     (case updateMenu inp s of (r, s1) \<Rightarrow>
      if r = MENU_SAVE_AND_EXIT
      then transitionToStatusIdle (saveNewSettingsToEepromAndDisplayExitMessage s1)
      else if r = MENU_DISCARD_AND_EXIT
      then transitionToStatusIdle
             (displayMenuExitMessage ID_MENU_EXIT_MESSAGE_DISCARDED MENU_EXIT_MESSAGE_DURATION_MS s1)
      else s1)"

definition manageStatusIdle :: "Inputs \<Rightarrow> FcuState \<Rightarrow> FcuState" where
  "manageStatusIdle inp s =
     (if isTriggerPressed inp
      then (if isFireSelectorInAutoPosition s then transitionToStatusFullAuto s
            else transitionToStatusSemiAuto s)
      else (case thereIsANewJoySelectPress s of (new, s1) \<Rightarrow>
            if new then transitionToStatusMenu s1 else s1))"

text \<open>
  The globals before \<^verbatim>\<open>setup()\<close>: static storage is zero-initialised, the two
  \<^verbatim>\<open>Settings\<close> objects take their default member initialisers.
\<close>

definition globals_init :: FcuState where
  "globals_init = \<lparr>buttons = buttons_init, settings = defaultSettings, shotCount = 0,
     currBurstShotCount = 0, reloadStatus = 0, status = 0, menuMode = 0, currMenuPage = 0,
     currMenuPageNumSettings = 0, currMenuCursorPos = 0, currMenuPageFirstSettingId = 0,
     currPressStartTimeMs = 0, currPressButtonId = 0, lastModificationTimeMs = 0,
     tempSettings = defaultSettings, settingValue = NoSettingValue, eeprom = None,
     outLog = []\<rparr>"

text \<open>
  The sketch's \<^verbatim>\<open>setup()\<close> (named \<open>setupFcu\<close> here), given what the EEPROM holds: \<open>Some\<close> settings behind a valid magic prefix,
  or \<open>None\<close>. The serial port and the pin modes are left out.
\<close>

definition setupFcu :: "Settings option \<Rightarrow> FcuState" where
  "setupFcu stored =
     (let s0 = globals_init\<lparr>eeprom := stored, shotCount := 0\<rparr>;
          s1 = emit [Delay 250, Delay 2000] s0;
          s2 = (case eeprom s1 of
                  None \<Rightarrow> saveSettingsToEeprom s1
                | Some st \<Rightarrow> s1\<lparr>settings := st\<rparr>)
      in transitionToStatusIdle s2)"

text \<open>The \<^verbatim>\<open>switch (status)\<close> of \<^verbatim>\<open>loop()\<close>: one state handler per iteration.\<close>

definition dispatch :: "Inputs \<Rightarrow> FcuState \<Rightarrow> FcuState" where
  "dispatch inp s =
     (if status s = STATUS_IDLE then manageStatusIdle inp s
      else if status s = STATUS_FULL_AUTO then manageStatusFullAuto inp s
      else if status s = STATUS_SEMI_AUTO then manageStatusSemiAuto inp s
      else if status s = STATUS_BINARY_TRIGGER_TAIL then manageStatusBinaryTriggerTail s
      else if status s = STATUS_RELOAD then manageStatusReload s
      else if status s = STATUS_MENU then manageStatusMenu inp s
      else s)"

definition loop :: "Inputs \<Rightarrow> FcuState \<Rightarrow> FcuState" where
  "loop inp s = dispatch inp (readAllButtons inp s)"

text \<open>Consecutive iterations of \<^verbatim>\<open>loop()\<close>, one per element of the input list.\<close>

fun run :: "Inputs list \<Rightarrow> FcuState \<Rightarrow> FcuState" where
  "run [] s = s"
| "run (inp # inps) s = run inps (loop inp s)"

section \<open>Observations used to state the properties\<close>

text \<open>The number of shots in an output log: the writes that energise the solenoid.\<close>

definition shotsFired :: "Event list \<Rightarrow> nat" where
  "shotsFired es = length (filter (\<lambda>e. e = DigitalWrite solenoidPin SOLENOID_ON) es)"

text \<open>
  Concrete inputs for one iteration: the clock reads \<open>t\<close> everywhere and the listed
  pins read LOW (pressed), all others HIGH.
\<close>

definition pinsOf :: "nat list \<Rightarrow> nat \<Rightarrow> level" where
  "pinsOf pressed p = (if p \<in> set pressed then BUTTON_PRESSED else BUTTON_RELEASED)"

definition inputsAt :: "ulong \<Rightarrow> nat list \<Rightarrow> Inputs" where
  "inputsAt t pressed = \<lparr>pollMillis = (\<lambda>i. t), pollPins = pinsOf pressed,
     handlerPins = pinsOf pressed, handlerMillis = t\<rparr>"

text \<open>The state on entry to SEMI_AUTO after 29 shots, with the default settings.\<close>

definition semiAutoAt29 :: FcuState where
  "semiAutoAt29 = transitionToStatusSemiAuto ((setupFcu None)\<lparr>shotCount := 29\<rparr>)"

text \<open>
  A sequence of polls of one channel, each given by the clock value and the raw level it
  samples.
\<close>

fun polls :: "(ulong \<times> level) list \<Rightarrow> ButtonData \<Rightarrow> ButtonData" where
  "polls [] bd = bd"
| "polls ((t, r) # ps) bd = polls ps (readButtonWithDebouncing_bd t r bd)"

text \<open>
  A sequence of polls in which \<^verbatim>\<open>thereIsANewPress\<close> is asked about one button after
  every \<^verbatim>\<open>readAllButtons\<close>, as the loop does for the select button while the machine
  idles: for each poll, the debounced level of the button at that poll and the answer.
\<close>

fun pollEdges :: "nat \<Rightarrow> Inputs list \<Rightarrow> FcuState \<Rightarrow> (level \<times> bool) list" where
  "pollEdges buttonId [] s = []"
| "pollEdges buttonId (inp # inps) s =
     (lastValidStatus (buttons (readAllButtons inp s) ! buttonId),
      fst (thereIsANewPress buttonId (readAllButtons inp s)))
     # pollEdges buttonId inps (snd (thereIsANewPress buttonId (readAllButtons inp s)))"

text \<open>
  From power-up: the select button is pressed and opens the menu; with select still
  held, a press of right leaves the menu; with select still held the trigger is pulled
  and a burst of three is fired, during which select is let go (sampled released at 600,
  debounced at 1000); the trigger is released and, in the iteration that takes the
  machine back to IDLE, select is sampled pressed again. Then one press of select as the
  idling machine sees it: debounced pressed for three polls, released for two.
\<close>

definition selectHeldThroughBurst :: "Inputs list" where
  "selectHeldThroughBurst =
     [inputsAt 0 [joySelectPin], inputsAt 60 [joySelectPin],
      inputsAt 100 [joySelectPin, joyRightPin], inputsAt 160 [joySelectPin, joyRightPin],
      inputsAt 2200 [joySelectPin, triggerPin],
      inputsAt 2600 [triggerPin], inputsAt 3000 [triggerPin], inputsAt 3400 [triggerPin],
      inputsAt 3800 [joySelectPin]]"

definition selectPressCycle :: "Inputs list" where
  "selectPressCycle =
     [inputsAt 3860 [joySelectPin], inputsAt 3900 [joySelectPin], inputsAt 4000 [],
      inputsAt 4060 [], inputsAt 4100 []]"

text \<open>A press of select seen to arrive, from power-up: released, pressed three polls, released.\<close>

definition selectPressFromRest :: "Inputs list" where
  "selectPressFromRest =
     [inputsAt 100 [joySelectPin], inputsAt 151 [joySelectPin], inputsAt 200 [joySelectPin],
      inputsAt 300 [], inputsAt 351 [], inputsAt 400 []]"

text \<open>
  The spec's reading of the press duration, kept apart from the code's: the poll time at
  which the debounced state last became pressed (\<open>None\<close> while it is not pressed), and
  the time elapsed since then.
\<close>

fun debouncedPressedSince :: "ulong option \<Rightarrow> (ulong \<times> level) list \<Rightarrow> ButtonData \<Rightarrow> ulong option" where
  "debouncedPressedSince since [] bd = since"
| "debouncedPressedSince since ((t, r) # ps) bd =
     (let bd1 = readButtonWithDebouncing_bd t r bd;
          since1 = (if lastValidStatus bd1 \<noteq> BUTTON_PRESSED then None
                    else if lastValidStatus bd \<noteq> BUTTON_PRESSED then Some t
                    else since)
      in debouncedPressedSince since1 ps bd1)"

definition pressDuration_spec :: "ulong \<Rightarrow> ulong option \<Rightarrow> ulong" where
  "pressDuration_spec now since = (case since of Some t0 \<Rightarrow> now - t0 | None \<Rightarrow> 0)"

text \<open>
  What the RELOAD handler sees of the magazine switch in each iteration of a run
  (\<open>True\<close> is pressed, magazine present), and the pattern that completes a reload:
  a "not present" observation followed, in a later iteration, by a "present" one.
\<close>

fun magazineSeen :: "Inputs list \<Rightarrow> FcuState \<Rightarrow> bool list" where
  "magazineSeen [] s = []"
| "magazineSeen (inp # inps) s =
     isMagazineButtonPressed (readAllButtons inp s) # magazineSeen inps (loop inp s)"

fun removedThenInserted :: "bool list \<Rightarrow> bool" where
  "removedThenInserted [] = False"
| "removedThenInserted (True # obs) = removedThenInserted obs"
| "removedThenInserted (False # obs) = (True \<in> set obs)"

text \<open>The bound on the shot counter, and force-reload being off in every state of a run.\<close>

definition shotCountWithinLimit :: "FcuState \<Rightarrow> bool" where
  "shotCountWithinLimit s = (shotCount s \<le> shotLimit (settings s))"

fun forceReloadOffThroughout :: "Inputs list \<Rightarrow> FcuState \<Rightarrow> bool" where
  "forceReloadOffThroughout [] s = (\<not> forceReload (settings s))"
| "forceReloadOffThroughout (inp # inps) s =
     (\<not> forceReload (settings s) \<and> forceReloadOffThroughout inps (loop inp s))"

text \<open>
  Two readings of a poll sequence used to state the debouncer's properties: the answers
  an edge detector gives on a sequence of debounced levels, given whether the previous
  level was pressed; and the time of the last poll whose raw sample differed from the
  one before it.
\<close>

fun edgesFrom :: "bool \<Rightarrow> level list \<Rightarrow> bool list" where
  "edgesFrom prev [] = []"
| "edgesFrom prev (l # ls) =
     (l = BUTTON_PRESSED \<and> \<not> prev) # edgesFrom (l = BUTTON_PRESSED) ls"

fun rawChangedAt :: "ulong \<Rightarrow> level \<Rightarrow> (ulong \<times> level) list \<Rightarrow> ulong" where
  "rawChangedAt t0 r0 [] = t0"
| "rawChangedAt t0 r0 ((t, r) # ps) =
     (if r \<noteq> r0 then rawChangedAt t r ps else rawChangedAt t0 r0 ps)"

text \<open>
  The part of the state the menu's navigation and editing never write: the settings in
  force, the counters, the state variables, the output log and the EEPROM.
\<close>

definition core :: "FcuState \<Rightarrow> Settings \<times> uint \<times> uint \<times> int \<times> int \<times> Event list \<times> Settings option" where
  "core s = (settings s, shotCount s, currBurstShotCount s, reloadStatus s, status s,
     outLog s, eeprom s)"

text \<open>
  A stored configuration with force-reload off and a shot limit of 2, and six iterations
  with the trigger held.
\<close>

definition limit2NoForceReload :: Settings where
  "limit2NoForceReload = defaultSettings\<lparr>shotLimit := 2, forceReload := False\<rparr>"

definition triggerHeld6 :: "Inputs list" where
  "triggerHeld6 = [inputsAt 0 [triggerPin], inputsAt 400 [triggerPin], inputsAt 800 [triggerPin],
     inputsAt 1200 [triggerPin], inputsAt 1600 [triggerPin], inputsAt 2000 [triggerPin]]"

text \<open>
  Seven iterations from power-up: a trigger pull in semi-automatic mode (entry, three
  shots, release), then the fire selector is moved to the auto position (seen at 1700,
  debounced at 1760) and the trigger is pulled again.
\<close>

definition burstThenFullAuto :: "Inputs list" where
  "burstThenFullAuto = [inputsAt 0 [triggerPin], inputsAt 400 [triggerPin],
     inputsAt 800 [triggerPin], inputsAt 1200 [triggerPin], inputsAt 1600 [],
     inputsAt 1700 [fireSelectorPin], inputsAt 1760 [fireSelectorPin, triggerPin]]"

text \<open>
  A state in which the magazine has been in place long enough to be debounced and 30
  shots are counted; then the magazine staying in, and the magazine taken out and put
  back (each change of the switch is debounced one iteration after it is first sampled).
\<close>

definition magazineInPlace :: FcuState where
  "magazineInPlace =
     (run [inputsAt 0 [magazinePin], inputsAt 60 [magazinePin]] (setupFcu None))\<lparr>shotCount := 30\<rparr>"

definition magazineStaysIn :: "Inputs list" where
  "magazineStaysIn = [inputsAt 100 [magazinePin], inputsAt 200 [magazinePin],
     inputsAt 300 [magazinePin]]"

definition magazineOutThenIn :: "Inputs list" where
  "magazineOutThenIn = [inputsAt 100 [magazinePin], inputsAt 200 [], inputsAt 260 [],
     inputsAt 300 [magazinePin], inputsAt 360 [magazinePin]]"

text \<open>
  Joystick input for the menu: a button sampled pressed at \<open>t\<close> and debounced 60 ms
  later, and all buttons sampled released at \<open>t\<close> and debounced 60 ms later.
\<close>

definition press :: "nat \<Rightarrow> ulong \<Rightarrow> Inputs list" where
  "press p t = [inputsAt t [p], inputsAt (t + 60) [p]]"

definition release :: "ulong \<Rightarrow> Inputs list" where
  "release t = [inputsAt t [], inputsAt (t + 60) []]"

text \<open>
  From power-up with the default settings: one burst of three shots; the select button
  opens the menu; five presses of down move the cursor to "Shot limit"; select opens it
  for editing; a press of down held for 2.5 s takes the value from 30 to 29 and then, in
  long-press steps of 5, to 24, 19, 14, 9, 4 and 1; right keeps the value; a second
  press of right saves and leaves the menu.
\<close>

definition menuLowersLimit :: "Inputs list" where
  "menuLowersLimit =
     [inputsAt 0 [triggerPin], inputsAt 400 [triggerPin], inputsAt 800 [triggerPin],
      inputsAt 1200 [triggerPin], inputsAt 1600 []]
     @ press joySelectPin 1700
     @ press joyDownPin 1800 @ release 1900 @ press joyDownPin 2000 @ release 2100
     @ press joyDownPin 2200 @ release 2300 @ press joyDownPin 2400 @ release 2500
     @ press joyDownPin 2600 @ release 2700
     @ press joySelectPin 2800
     @ press joyDownPin 2900
     @ map (\<lambda>t. inputsAt t [joyDownPin]) [4960, 5060, 5160, 5260, 5360, 5460]
     @ press joyRightPin 5560 @ release 5660
     @ press joyRightPin 5760"

text \<open>The state variables that matter for the bound on the shot counter.\<close>

definition limitView :: "FcuState \<Rightarrow> int \<times> uint \<times> uint \<times> uint" where
  "limitView s = (status s, shotCount s, shotLimit (settings s), shotLimit (tempSettings s))"

text \<open>
  The inputs of an iteration whose polls are those of \<open>inputsAt 0 [triggerPin]\<close> but in
  which the trigger pin reads released when the state handler samples it.
\<close>

definition triggerReleasedAtHandler :: Inputs where
  "triggerReleasedAtHandler = (inputsAt 0 [triggerPin])\<lparr>handlerPins := pinsOf []\<rparr>"

section \<open>Polling touches only the buttons\<close>

lemma readButtonWithDebouncing_only_buttons:
  "readButtonWithDebouncing inp i s = s\<lparr>buttons := buttons (readButtonWithDebouncing inp i s)\<rparr>"
  by (simp add: readButtonWithDebouncing_def Let_def)

lemma readButtonsFrom_only_buttons:
  "readButtonsFrom inp i k s = s\<lparr>buttons := buttons (readButtonsFrom inp i k s)\<rparr>"
proof (induction k arbitrary: i s)
  case 0
  show ?case by simp
next
  case (Suc k)
  have "readButtonsFrom inp (Suc i) k (readButtonWithDebouncing inp i s)
      = (readButtonWithDebouncing inp i s)\<lparr>buttons :=
           buttons (readButtonsFrom inp (Suc i) k (readButtonWithDebouncing inp i s))\<rparr>"
    by (rule Suc.IH)
  also have "\<dots> = s\<lparr>buttons :=
           buttons (readButtonsFrom inp (Suc i) k (readButtonWithDebouncing inp i s))\<rparr>"
    by (subst readButtonWithDebouncing_only_buttons) simp
  finally show ?case by simp
qed

lemma readAllButtons_only_buttons:
  "readAllButtons inp s = s\<lparr>buttons := buttons (readAllButtons inp s)\<rparr>"
  unfolding readAllButtons_def by (rule readButtonsFrom_only_buttons)

lemma readAllButtons_fields:
  "settings (readAllButtons inp s) = settings s"
  "shotCount (readAllButtons inp s) = shotCount s"
  "currBurstShotCount (readAllButtons inp s) = currBurstShotCount s"
  "reloadStatus (readAllButtons inp s) = reloadStatus s"
  "status (readAllButtons inp s) = status s"
  "outLog (readAllButtons inp s) = outLog s"
  "tempSettings (readAllButtons inp s) = tempSettings s"
  "menuMode (readAllButtons inp s) = menuMode s"
  by (subst readAllButtons_only_buttons, simp)+

section \<open>The shot executor\<close>

lemma word_less_succ_unat: "(a::uint) < b \<Longrightarrow> unat (a + 1) = Suc (unat a)"
proof -
  assume "a < b"
  then have "unat a < unat b" by (simp add: word_less_nat_alt)
  moreover have "unat b < 2 ^ 16" using unsigned_less [of b] by simp
  ultimately have "unat a + 1 < 2 ^ 16" by simp
  then show ?thesis by (simp add: unat_word_ariths)
qed

lemma shotsFired_fireShot: "shotsFired (outLog (fireShot s)) = Suc (shotsFired (outLog s))"
  by (simp add: fireShot_def emit_def shotsFired_def)

lemma fireShot_shotCount: "shotCount (fireShot s) = shotCount s"
  by (simp add: fireShot_def emit_def)

text \<open>
  C2. \<^verbatim>\<open>doOneShot\<close> returns false exactly when force-reload is enabled and
  \<open>shotCount \<ge> shotLimit\<close>; then the whole state, the output log included, is unchanged.
  In every other case it returns true, \<open>shotCount\<close> is incremented (without wrapping)
  when force-reload is enabled and left alone when it is not, and one shot is driven.
\<close>

theorem doOneShot_outcomes:
  "(fst (doOneShot s) = False)
     = (forceReload (settings s) \<and> shotCount s \<ge> shotLimit (settings s))
   \<and> (\<not> fst (doOneShot s) \<longrightarrow> snd (doOneShot s) = s)
   \<and> (fst (doOneShot s) \<longrightarrow>
        shotCount (snd (doOneShot s))
          = (if forceReload (settings s) then shotCount s + 1 else shotCount s)
        \<and> unat (shotCount (snd (doOneShot s)))
          = (if forceReload (settings s) then unat (shotCount s) + 1 else unat (shotCount s))
        \<and> shotsFired (outLog (snd (doOneShot s))) = shotsFired (outLog s) + 1)"
  by (auto simp: doOneShot_def shotsFired_fireShot fireShot_shotCount word_less_succ_unat not_le)

theorem doOneShot_outcomes_witness:
  "fst (doOneShot ((setupFcu None)\<lparr>shotCount := 30\<rparr>)) = False
   \<and> snd (doOneShot ((setupFcu None)\<lparr>shotCount := 30\<rparr>)) = (setupFcu None)\<lparr>shotCount := 30\<rparr>
   \<and> fst (doOneShot ((setupFcu None)\<lparr>shotCount := 29\<rparr>)) = True
   \<and> unat (shotCount (snd (doOneShot ((setupFcu None)\<lparr>shotCount := 29\<rparr>)))) = 30"
  using doOneShot_outcomes [of "(setupFcu None)\<lparr>shotCount := 30\<rparr>"]
        doOneShot_outcomes [of "(setupFcu None)\<lparr>shotCount := 29\<rparr>"]
  by (simp add: setupFcu_def globals_init_def defaultSettings_def emit_def
        saveSettingsToEeprom_def transitionToStatusIdle_def Let_def)

section \<open>The array of buttons\<close>

text \<open>
  One call of \<^verbatim>\<open>readAllButtons\<close> polls every channel of the array exactly once, and
  no iteration of the loop changes the size of the array: in every state reached from
  power-up the seven button ids address the seven channels.
\<close>

lemma readButtonWithDebouncing_buttons:
  "buttons (readButtonWithDebouncing inp i s)
     = (buttons s)[i := readButtonWithDebouncing_bd (pollMillis inp i)
                          (pollPins inp (pin (buttons s ! i))) (buttons s ! i)]"
  by (simp add: readButtonWithDebouncing_def Let_def)

lemma readButtonsFrom_buttons:
  "i + k \<le> length (buttons s) \<Longrightarrow>
   buttons (readButtonsFrom inp i k s)
     = take i (buttons s)
       @ map (\<lambda>(j, bd). readButtonWithDebouncing_bd (pollMillis inp j) (pollPins inp (pin bd)) bd)
           (zip [i..<i + k] (take k (drop i (buttons s))))
       @ drop (i + k) (buttons s)"
proof (induction k arbitrary: i s)
  case 0
  then show ?case by simp
next
  case (Suc k)
  let ?s1 = "readButtonWithDebouncing inp i s"
  let ?f = "\<lambda>(j, bd). readButtonWithDebouncing_bd (pollMillis inp j) (pollPins inp (pin bd)) bd"
  have i: "i < length (buttons s)" using Suc.prems by simp
  have b1: "buttons ?s1 = (buttons s)[i := ?f (i, buttons s ! i)]"
    by (simp add: readButtonWithDebouncing_buttons)
  have len: "Suc i + k \<le> length (buttons ?s1)" using Suc.prems by (simp add: b1)
  have t1: "take (Suc i) (buttons ?s1) = take i (buttons s) @ [?f (i, buttons s ! i)]"
    using i by (simp add: b1 take_Suc_conv_app_nth)
  have d1: "drop (Suc i) (buttons ?s1) = drop (Suc i) (buttons s)"
    by (simp add: b1)
  have d2: "drop (Suc i + k) (buttons ?s1) = drop (Suc i + k) (buttons s)"
    by (simp add: b1)
  have zs: "zip [i..<i + Suc k] (take (Suc k) (drop i (buttons s)))
      = (i, buttons s ! i) # zip [Suc i..<Suc i + k] (take k (drop (Suc i) (buttons s)))"
  proof -
    have "drop i (buttons s) = buttons s ! i # drop (Suc i) (buttons s)"
      using i by (simp add: Cons_nth_drop_Suc)
    moreover have "[i..<i + Suc k] = i # [Suc i..<Suc i + k]"
      by (simp add: upt_conv_Cons)
    ultimately show ?thesis by simp
  qed
  have "buttons (readButtonsFrom inp (Suc i) k ?s1)
      = take (Suc i) (buttons ?s1)
        @ map ?f (zip [Suc i..<Suc i + k] (take k (drop (Suc i) (buttons ?s1))))
        @ drop (Suc i + k) (buttons ?s1)"
    by (rule Suc.IH [OF len])
  also have "\<dots> = (take i (buttons s) @ [?f (i, buttons s ! i)])
        @ map ?f (zip [Suc i..<Suc i + k] (take k (drop (Suc i) (buttons s))))
        @ drop (Suc i + k) (buttons s)"
    by (simp only: t1 d1 d2)
  also have "\<dots> = take i (buttons s)
        @ map ?f ((i, buttons s ! i) # zip [Suc i..<Suc i + k] (take k (drop (Suc i) (buttons s))))
        @ drop (i + Suc k) (buttons s)"
    by simp
  also have "\<dots> = take i (buttons s)
        @ map ?f (zip [i..<i + Suc k] (take (Suc k) (drop i (buttons s))))
        @ drop (i + Suc k) (buttons s)"
    by (simp only: zs)
  finally show ?case by simp
qed

lemma readAllButtons_polls_each_channel_once:
  assumes "length (buttons s) = numButtons"
  shows "buttons (readAllButtons inp s)
     = map (\<lambda>(j, bd). readButtonWithDebouncing_bd (pollMillis inp j) (pollPins inp (pin bd)) bd)
         (zip [0..<numButtons] (buttons s))"
  using readButtonsFrom_buttons [of 0 numButtons s inp] assms
  by (simp add: readAllButtons_def)

lemma readButtonsFrom_length:
  "length (buttons (readButtonsFrom inp i k s)) = length (buttons s)"
  by (induction k arbitrary: i s) (simp_all add: readButtonWithDebouncing_def Let_def)

lemma thereIsANewPress_length:
  "thereIsANewPress b s = (r, s') \<Longrightarrow> length (buttons s') = length (buttons s)"
  by (auto simp: thereIsANewPress_def split: prod.splits)

lemma menu_navigation_buttons [simp]:
  "buttons (moveMenuCursorTo r s) = buttons s"
  "buttons (displayMenuPage p r s) = buttons s"
  "buttons (moveMenuCursorUp s) = buttons s"
  "buttons (moveMenuCursorDown s) = buttons s"
  "buttons (getSettingValue i s) = buttons s"
  "buttons (displayPageForSettingModify s) = buttons s"
  "buttons (commitSetting s) = buttons s"
  "buttons (incDecAndDisplaySettingValue d b s) = buttons s"
  "buttons (displayFirstMenuPage s) = buttons s"
  by (simp_all add: moveMenuCursorTo_def displayMenuPage_def moveMenuCursorUp_def
      moveMenuCursorDown_def getSettingValue_def initSettingValueUInt_def
      initSettingValueBool_def displayPageForSettingModify_def commitSetting_def
      incDecAndDisplaySettingValue_def displayFirstMenuPage_def Let_def
      split: SettingValue.splits)

lemma updateMenuPage_length:
  "length (buttons (snd (updateMenuPage s))) = length (buttons s)"
  by (auto simp: updateMenuPage_def split: prod.splits dest!: thereIsANewPress_length)

lemma updateMenuSettingBool_length:
  "length (buttons (updateMenuSettingBool s)) = length (buttons s)"
  by (auto simp: updateMenuSettingBool_def Let_def
      split: prod.splits SettingValue.splits dest!: thereIsANewPress_length)

lemma manageCursorUpDown_length:
  "length (buttons (snd (manageCursorUpDown inp b d s))) = length (buttons s)"
  by (auto simp: manageCursorUpDown_def Let_def split: prod.splits dest!: thereIsANewPress_length)

lemma updateMenuSettingUInt_length:
  "length (buttons (updateMenuSettingUInt inp s)) = length (buttons s)"
  using manageCursorUpDown_length [of inp ID_BUTTON_JOY_UP True s]
    manageCursorUpDown_length [of inp ID_BUTTON_JOY_DOWN False
      "snd (manageCursorUpDown inp ID_BUTTON_JOY_UP True s)"]
  by (auto simp: updateMenuSettingUInt_def split: prod.splits)

lemma updateMenuSetting_length:
  "length (buttons (updateMenuSetting inp s)) = length (buttons s)"
  by (auto simp: updateMenuSetting_def updateMenuSettingUInt_length updateMenuSettingBool_length
      split: prod.splits SettingValue.splits dest!: thereIsANewPress_length)

lemma manageStatusMenu_length:
  "length (buttons (manageStatusMenu inp s)) = length (buttons s)"
  using updateMenuPage_length [of s] updateMenuSetting_length [of inp s]
  by (auto simp: manageStatusMenu_def updateMenu_def transitionToStatusIdle_def
      saveNewSettingsToEepromAndDisplayExitMessage_def commitSettings_def
      displayMenuExitMessage_def emit_def saveSettingsToEeprom_def
      split: prod.splits if_splits)

lemma manageStatusIdle_length:
  "length (buttons (manageStatusIdle inp s)) = length (buttons s)"
  by (auto simp: manageStatusIdle_def thereIsANewJoySelectPress_def transitionToStatusMenu_def
      transitionToStatusFullAuto_def transitionToStatusSemiAuto_def
      split: prod.splits dest!: thereIsANewPress_length)

lemma firing_handlers_buttons:
  "buttons (manageStatusFullAuto inp s) = buttons s"
  "buttons (manageStatusSemiAuto inp s) = buttons s"
  "buttons (manageStatusBinaryTriggerTail s) = buttons s"
  "buttons (manageStatusReload s) = buttons s"
  by (auto simp: manageStatusFullAuto_def manageStatusSemiAuto_def
      manageStatusBinaryTriggerTail_def manageStatusReload_def
      doNextShotAndGoToStatusReloadIfShotError_def doOneShot_def fireShot_def emit_def
      transitionToStatusIdle_def transitionToStatusReload_def
      transitionToStatusBinaryTriggerTail_def split: prod.splits)

lemma loop_length: "length (buttons (loop inp s)) = length (buttons s)"
proof -
  have "length (buttons (dispatch inp t)) = length (buttons t)" for t
    by (simp add: dispatch_def manageStatusIdle_length manageStatusMenu_length
        firing_handlers_buttons)
  then show ?thesis
    by (simp add: loop_def readAllButtons_def readButtonsFrom_length)
qed

lemma run_from_setup_has_all_buttons:
  "length (buttons (run inps (setupFcu stored))) = numButtons"
proof -
  have "length (buttons (run inps s)) = length (buttons s)" for s
    by (induction inps arbitrary: s) (simp_all add: loop_length)
  then show ?thesis
    by (simp add: setupFcu_def globals_init_def numButtons_def emit_def
        saveSettingsToEeprom_def transitionToStatusIdle_def Let_def split: option.splits)
qed

section \<open>Forced reload in the middle of a burst\<close>

lemma loop_semiAuto_fire:
  assumes "status s = STATUS_SEMI_AUTO" "currBurstShotCount s < numShotsPerBurst (settings s)"
    "forceReload (settings s)" "shotCount s < shotLimit (settings s)"
  shows "loop inp s = (fireShot ((readAllButtons inp s)\<lparr>shotCount := shotCount s + 1\<rparr>))
            \<lparr>currBurstShotCount := currBurstShotCount s + 1\<rparr>"
  using assms
  by (simp add: loop_def dispatch_def manageStatusSemiAuto_def
      doNextShotAndGoToStatusReloadIfShotError_def doOneShot_def not_le fireShot_def emit_def
      readAllButtons_fields)

lemma loop_semiAuto_limit:
  assumes "status s = STATUS_SEMI_AUTO" "currBurstShotCount s < numShotsPerBurst (settings s)"
    "forceReload (settings s)" "shotLimit (settings s) \<le> shotCount s"
  shows "loop inp s = transitionToStatusReload (readAllButtons inp s)"
  using assms
  by (simp add: loop_def dispatch_def manageStatusSemiAuto_def
      doNextShotAndGoToStatusReloadIfShotError_def doOneShot_def readAllButtons_fields)

text \<open>
  C1. With force-reload enabled, \<open>shotCount = 29\<close>, \<open>shotLimit = 30\<close> and a burst size
  of 3, the first iteration in SEMI_AUTO fires one shot (\<open>shotCount\<close> becomes 30, one more
  solenoid pulse in the log) and stays in SEMI_AUTO; the second iteration fires nothing
  (the log is unchanged) and enters RELOAD, so the remaining two shots of the burst are
  not fired. This holds whatever the inputs of the two iterations are.
\<close>

theorem forced_reload_arithmetic:
  assumes "status s = STATUS_SEMI_AUTO" and "currBurstShotCount s = 0" and "shotCount s = 29"
    and "forceReload (settings s)" and "shotLimit (settings s) = 30"
    and "numShotsPerBurst (settings s) = 3"
  shows "status (loop i1 s) = STATUS_SEMI_AUTO \<and> shotCount (loop i1 s) = 30
     \<and> currBurstShotCount (loop i1 s) = 1
     \<and> shotsFired (outLog (loop i1 s)) = shotsFired (outLog s) + 1
     \<and> status (loop i2 (loop i1 s)) = STATUS_RELOAD
     \<and> reloadStatus (loop i2 (loop i1 s)) = RELOAD_WAITING_FOR_MAGAZINE_OUT
     \<and> shotCount (loop i2 (loop i1 s)) = 30
     \<and> outLog (loop i2 (loop i1 s)) = outLog (loop i1 s)"
proof -
  have step1: "loop i1 s = (fireShot ((readAllButtons i1 s)\<lparr>shotCount := shotCount s + 1\<rparr>))
                 \<lparr>currBurstShotCount := currBurstShotCount s + 1\<rparr>"
    using assms by (intro loop_semiAuto_fire) simp_all
  have f1: "status (loop i1 s) = STATUS_SEMI_AUTO" "shotCount (loop i1 s) = 30"
    "currBurstShotCount (loop i1 s) = 1" "settings (loop i1 s) = settings s"
    "shotsFired (outLog (loop i1 s)) = shotsFired (outLog s) + 1"
    using assms
    by (simp_all add: step1 fireShot_def emit_def readAllButtons_fields shotsFired_def)
  have step2: "loop i2 (loop i1 s) = transitionToStatusReload (readAllButtons i2 (loop i1 s))"
    using assms f1 by (intro loop_semiAuto_limit) simp_all
  show ?thesis
    using f1 by (simp add: step2 transitionToStatusReload_def readAllButtons_fields)
qed

lemma semiAutoAt29_fields:
  "status semiAutoAt29 = STATUS_SEMI_AUTO" "currBurstShotCount semiAutoAt29 = 0"
  "shotCount semiAutoAt29 = 29" "forceReload (settings semiAutoAt29)"
  "shotLimit (settings semiAutoAt29) = 30" "numShotsPerBurst (settings semiAutoAt29) = 3"
  "outLog semiAutoAt29 = [Delay 250, Delay 2000]"
  by (simp_all add: semiAutoAt29_def transitionToStatusSemiAuto_def setupFcu_def
      globals_init_def defaultSettings_def emit_def saveSettingsToEeprom_def
      transitionToStatusIdle_def Let_def)

theorem forced_reload_arithmetic_witness:
  "status semiAutoAt29 = STATUS_SEMI_AUTO \<and> currBurstShotCount semiAutoAt29 = 0
   \<and> shotCount semiAutoAt29 = 29 \<and> forceReload (settings semiAutoAt29)
   \<and> shotLimit (settings semiAutoAt29) = 30 \<and> numShotsPerBurst (settings semiAutoAt29) = 3
   \<and> shotCount (loop (inputsAt 0 [triggerPin]) semiAutoAt29) = 30
   \<and> shotsFired (outLog (loop (inputsAt 0 [triggerPin]) semiAutoAt29)) = 1
   \<and> status (loop (inputsAt 400 [triggerPin]) (loop (inputsAt 0 [triggerPin]) semiAutoAt29))
       = STATUS_RELOAD
   \<and> shotsFired (outLog (loop (inputsAt 400 [triggerPin])
        (loop (inputsAt 0 [triggerPin]) semiAutoAt29))) = 1"
  using forced_reload_arithmetic [OF semiAutoAt29_fields(1-6),
          of "inputsAt 0 [triggerPin]" "inputsAt 400 [triggerPin]"]
  by (simp add: semiAutoAt29_fields shotsFired_def)

section \<open>The input debouncer\<close>

subsection \<open>New-press edges\<close>

lemma readButtonWithDebouncing_bd_latch:
  "precStatusIsPressed (readButtonWithDebouncing_bd t r bd) = precStatusIsPressed bd"
  by (simp add: readButtonWithDebouncing_bd_def Let_def)

lemma readButtonsFrom_latch:
  "b < length (buttons s) \<Longrightarrow>
   precStatusIsPressed (buttons (readButtonsFrom inp i k s) ! b) = precStatusIsPressed (buttons s ! b)"
proof (induction k arbitrary: i s)
  case 0
  show ?case by simp
next
  case (Suc k)
  let ?s1 = "readButtonWithDebouncing inp i s"
  have len: "b < length (buttons ?s1)"
    using Suc.prems by (simp add: readButtonWithDebouncing_buttons)
  have "precStatusIsPressed (buttons ?s1 ! b) = precStatusIsPressed (buttons s ! b)"
    using Suc.prems
    by (cases "i = b")
      (simp_all add: readButtonWithDebouncing_buttons readButtonWithDebouncing_bd_latch)
  then show ?case
    using Suc.IH [OF len, of "Suc i"] by simp
qed

lemma thereIsANewPress_result:
  assumes "b < length (buttons s)" and "thereIsANewPress b s = (e, s')"
  shows "e = (lastValidStatus (buttons s ! b) = BUTTON_PRESSED \<and> \<not> precStatusIsPressed (buttons s ! b))"
    and "precStatusIsPressed (buttons s' ! b) = (lastValidStatus (buttons s ! b) = BUTTON_PRESSED)"
    and "length (buttons s') = length (buttons s)"
  using assms
  by (auto simp: thereIsANewPress_def thereIsANewPress_bd_def split: if_splits)

lemma pollEdges_edgesFrom:
  "b < length (buttons s) \<Longrightarrow>
   map snd (pollEdges b inps s)
     = edgesFrom (precStatusIsPressed (buttons s ! b)) (map fst (pollEdges b inps s))"
proof (induction inps arbitrary: s)
  case Nil
  show ?case by simp
next
  case (Cons inp inps)
  let ?s1 = "readAllButtons inp s"
  obtain e s2 where e: "thereIsANewPress b ?s1 = (e, s2)" by (cases "thereIsANewPress b ?s1")
  have len1: "b < length (buttons ?s1)"
    using Cons.prems by (simp add: readAllButtons_def readButtonsFrom_length)
  have latch1: "precStatusIsPressed (buttons ?s1 ! b) = precStatusIsPressed (buttons s ! b)"
    using Cons.prems by (simp add: readAllButtons_def readButtonsFrom_latch)
  note r = thereIsANewPress_result [OF len1 e]
  have len2: "b < length (buttons s2)" using len1 r(3) by simp
  show ?case
    using Cons.IH [OF len2] r(1,2) latch1 by (simp add: e)
qed

lemma edgesFrom_released:
  "edgesFrom prev (replicate j BUTTON_RELEASED @ ls)
     = replicate j False @ edgesFrom (if j = 0 then prev else False) ls"
  by (induction j arbitrary: prev) simp_all

lemma edgesFrom_held:
  "edgesFrom True (replicate m BUTTON_PRESSED @ replicate n BUTTON_RELEASED)
     = replicate (m + n) False"
  using edgesFrom_released [of True n "[]"] by (induction m) simp_all

text \<open>
  C5, as the code has it. Take any state with the button inside the array and any
  sequence of polls, \<^verbatim>\<open>thereIsANewPress\<close> being asked after each
  \<^verbatim>\<open>readAllButtons\<close>, in which the debounced state of the button is released for
  \<open>j\<close> polls, then pressed for \<open>m > 0\<close> polls, then released for \<open>n\<close> polls.
  If the latch is clear when the press arrives (\<open>j > 0\<close>: a poll of the sequence saw
  the button released; or \<^verbatim>\<open>precStatusIsPressed\<close> is false to begin with), the answer is
  true on the first pressed poll and false on every other poll: exactly one true. If the
  press is the first thing the sequence sees and the latch is still set from an earlier
  press, the answer is false on every poll.
\<close>

theorem new_press_edge_once_when_latch_clear:
  assumes "buttonId < length (buttons s)"
    and "map fst (pollEdges buttonId inps s)
           = replicate j BUTTON_RELEASED @ replicate m BUTTON_PRESSED @ replicate n BUTTON_RELEASED"
    and "0 < m"
  shows "(0 < j \<or> \<not> precStatusIsPressed (buttons s ! buttonId) \<longrightarrow>
            map snd (pollEdges buttonId inps s)
              = replicate j False @ True # replicate (m - 1 + n) False
            \<and> length (filter (\<lambda>e. e) (map snd (pollEdges buttonId inps s))) = 1)
     \<and> (j = 0 \<and> precStatusIsPressed (buttons s ! buttonId) \<longrightarrow>
            map snd (pollEdges buttonId inps s) = replicate (m + n) False)"
proof -
  obtain k where m: "m = Suc k" using assms(3) by (cases m) simp_all
  have edges: "map snd (pollEdges buttonId inps s)
          = edgesFrom (precStatusIsPressed (buttons s ! buttonId))
              (replicate j BUTTON_RELEASED @ replicate m BUTTON_PRESSED @ replicate n BUTTON_RELEASED)"
    using pollEdges_edgesFrom [OF assms(1), of inps] assms(2) by simp
  have clear: "map snd (pollEdges buttonId inps s)
                 = replicate j False @ True # replicate (m - 1 + n) False
               \<and> length (filter (\<lambda>e. e) (map snd (pollEdges buttonId inps s))) = 1"
    if c: "0 < j \<or> \<not> precStatusIsPressed (buttons s ! buttonId)"
  proof -
    have latch: "(if j = 0 then precStatusIsPressed (buttons s ! buttonId) else False) = False"
      using c by auto
    have "map snd (pollEdges buttonId inps s)
            = replicate j False
              @ edgesFrom False (replicate m BUTTON_PRESSED @ replicate n BUTTON_RELEASED)"
      by (simp only: edges edgesFrom_released latch)
    also have "\<dots> = replicate j False @ True # replicate (k + n) False"
      by (simp add: m edgesFrom_held)
    finally show ?thesis by (simp add: m)
  qed
  have stale: "map snd (pollEdges buttonId inps s) = replicate (m + n) False"
    if "j = 0 \<and> precStatusIsPressed (buttons s ! buttonId)"
    using that edges by (simp add: edgesFrom_held)
  show ?thesis using clear stale by blast
qed


theorem new_press_edge_once_when_latch_clear_witness:
  "ID_BUTTON_JOY_SELECT < length (buttons (setupFcu None))
   \<and> map fst (pollEdges ID_BUTTON_JOY_SELECT selectPressFromRest (setupFcu None))
       = replicate 1 BUTTON_RELEASED @ replicate 3 BUTTON_PRESSED @ replicate 2 BUTTON_RELEASED
   \<and> map snd (pollEdges ID_BUTTON_JOY_SELECT selectPressFromRest (setupFcu None))
       = [False, True, False, False, False, False]
   \<and> ID_BUTTON_JOY_SELECT < length (buttons (run selectHeldThroughBurst (setupFcu None)))
   \<and> precStatusIsPressed (buttons (run selectHeldThroughBurst (setupFcu None)) ! ID_BUTTON_JOY_SELECT)
   \<and> map fst (pollEdges ID_BUTTON_JOY_SELECT selectPressCycle (run selectHeldThroughBurst (setupFcu None)))
       = replicate 0 BUTTON_RELEASED @ replicate 3 BUTTON_PRESSED @ replicate 2 BUTTON_RELEASED
   \<and> map snd (pollEdges ID_BUTTON_JOY_SELECT selectPressCycle (run selectHeldThroughBurst (setupFcu None)))
       = [False, False, False, False, False]"
proof -
  have l1: "ID_BUTTON_JOY_SELECT < length (buttons (setupFcu None))" by code_simp
  have h1: "map fst (pollEdges ID_BUTTON_JOY_SELECT selectPressFromRest (setupFcu None))
       = replicate 1 BUTTON_RELEASED @ replicate 3 BUTTON_PRESSED @ replicate 2 BUTTON_RELEASED"
    by code_simp
  have l2: "ID_BUTTON_JOY_SELECT < length (buttons (run selectHeldThroughBurst (setupFcu None)))"
    by (simp add: run_from_setup_has_all_buttons numButtons_def buttons_init_def)
  have p2: "precStatusIsPressed
              (buttons (run selectHeldThroughBurst (setupFcu None)) ! ID_BUTTON_JOY_SELECT)"
    by code_simp
  have h2: "map fst (pollEdges ID_BUTTON_JOY_SELECT selectPressCycle
                       (run selectHeldThroughBurst (setupFcu None)))
       = replicate 0 BUTTON_RELEASED @ replicate 3 BUTTON_PRESSED @ replicate 2 BUTTON_RELEASED"
    by code_simp
  show ?thesis
    using l1 h1 l2 p2 h2
      new_press_edge_once_when_latch_clear [OF l1 h1]
      new_press_edge_once_when_latch_clear [OF l2 h2]
    by (simp add: numeral_3_eq_3 numeral_2_eq_2)
qed

text \<open>
  After \<open>selectHeldThroughBurst\<close> the machine idles, the select button is debounced
  released, and its latch is still set: \<^verbatim>\<open>thereIsANewPress\<close> was last asked in the
  menu, while select was held, and is not asked during a burst. The press that follows is
  asked about in every poll and is never reported; the machine stays in IDLE.
\<close>

theorem stale_latch_counterexample:
  "status (run selectHeldThroughBurst (setupFcu None)) = STATUS_IDLE
   \<and> lastValidStatus (buttons (run selectHeldThroughBurst (setupFcu None)) ! ID_BUTTON_JOY_SELECT)
       = BUTTON_RELEASED
   \<and> pollEdges ID_BUTTON_JOY_SELECT selectPressCycle (run selectHeldThroughBurst (setupFcu None))
       = [(BUTTON_PRESSED, False), (BUTTON_PRESSED, False), (BUTTON_PRESSED, False),
          (BUTTON_RELEASED, False), (BUTTON_RELEASED, False)]
   \<and> status (run (selectHeldThroughBurst @ selectPressCycle) (setupFcu None)) = STATUS_IDLE"
  by code_simp

subsection \<open>Debounce window\<close>

lemma poll_same_reading:
  "buttonStatus bd = v \<Longrightarrow>
   readButtonWithDebouncing_bd t v bd
     = (if t - startTimeMs bd > buttonsDebouncingTimeMs then bd\<lparr>lastValidStatus := v\<rparr> else bd)"
  by (simp add: readButtonWithDebouncing_bd_def)

lemma poll_change:
  "buttonStatus bd \<noteq> v \<Longrightarrow>
   readButtonWithDebouncing_bd t v bd = bd\<lparr>startTimeMs := t, buttonStatus := v\<rparr>"
  by (simp add: readButtonWithDebouncing_bd_def buttonsDebouncingTimeMs_def)

lemma polls_held:
  "buttonStatus bd = v \<Longrightarrow>
   lastValidStatus (polls (map (\<lambda>t. (t, v)) ts) bd)
     = (if \<exists>t\<in>set ts. t - startTimeMs bd > buttonsDebouncingTimeMs then v else lastValidStatus bd)"
proof (induction ts arbitrary: bd)
  case Nil
  show ?case by simp
next
  case (Cons t ts)
  let ?bd1 = "readButtonWithDebouncing_bd t v bd"
  have b1: "buttonStatus ?bd1 = v" "startTimeMs ?bd1 = startTimeMs bd"
    "lastValidStatus ?bd1
       = (if t - startTimeMs bd > buttonsDebouncingTimeMs then v else lastValidStatus bd)"
    using Cons.prems by (simp_all add: poll_same_reading)
  show ?case
    using Cons.IH [OF b1(1)] by (auto simp: b1)
qed

lemma poll_commit_only_after_window:
  "lastValidStatus (readButtonWithDebouncing_bd t r b) \<noteq> lastValidStatus b \<Longrightarrow>
   t - startTimeMs (readButtonWithDebouncing_bd t r b) > buttonsDebouncingTimeMs"
  by (auto simp: readButtonWithDebouncing_bd_def Let_def split: if_splits)

text \<open>
  C6, as the code has it. A poll at \<open>t0\<close> samples a raw level \<open>v\<close> that differs from
  the recorded one; it commits nothing. While the following polls keep sampling \<open>v\<close>,
  the debounced state keeps the value it had before the change until the first poll at
  which more than the debounce window has elapsed since \<open>t0\<close> (in the 32-bit arithmetic
  of \<^verbatim>\<open>millis()\<close>), and equals \<open>v\<close> from that poll on. In general a poll changes the
  debounced state only when the time since the recorded raw change exceeds the window.
\<close>

theorem debounce_stability:
  assumes "buttonStatus bd \<noteq> v"
  shows "lastValidStatus (readButtonWithDebouncing_bd t0 v bd) = lastValidStatus bd
     \<and> lastValidStatus (polls (map (\<lambda>t. (t, v)) ts) (readButtonWithDebouncing_bd t0 v bd))
         = (if \<exists>t\<in>set ts. t - t0 > buttonsDebouncingTimeMs then v else lastValidStatus bd)
     \<and> (lastValidStatus (readButtonWithDebouncing_bd t r b) \<noteq> lastValidStatus b \<longrightarrow>
          t - startTimeMs (readButtonWithDebouncing_bd t r b) > buttonsDebouncingTimeMs)"
proof -
  let ?bd0 = "readButtonWithDebouncing_bd t0 v bd"
  have c: "?bd0 = bd\<lparr>startTimeMs := t0, buttonStatus := v\<rparr>"
    using assms by (rule poll_change)
  have "buttonStatus ?bd0 = v" by (simp add: c)
  from polls_held [OF this, of ts]
  have "lastValidStatus (polls (map (\<lambda>t. (t, v)) ts) ?bd0)
         = (if \<exists>t\<in>set ts. t - t0 > buttonsDebouncingTimeMs then v else lastValidStatus bd)"
    by (simp add: c)
  then show ?thesis
    using poll_commit_only_after_window [of t r b] by (simp add: c)
qed

theorem debounce_stability_witness:
  "buttonStatus (mkButton magazinePin) \<noteq> LOW
   \<and> lastValidStatus (polls (map (\<lambda>t. (t, LOW)) [120, 150])
         (readButtonWithDebouncing_bd 100 LOW (mkButton magazinePin))) = HIGH
   \<and> lastValidStatus (polls (map (\<lambda>t. (t, LOW)) [120, 150, 151, 200])
         (readButtonWithDebouncing_bd 100 LOW (mkButton magazinePin))) = LOW
   \<and> lastValidStatus (readButtonWithDebouncing_bd 151 LOW
         (readButtonWithDebouncing_bd 100 LOW (mkButton magazinePin)))
       \<noteq> lastValidStatus (readButtonWithDebouncing_bd 100 LOW (mkButton magazinePin))
   \<and> 151 - startTimeMs (readButtonWithDebouncing_bd 151 LOW
         (readButtonWithDebouncing_bd 100 LOW (mkButton magazinePin)))
       > buttonsDebouncingTimeMs"
proof -
  have h: "buttonStatus (mkButton magazinePin) \<noteq> LOW" by (simp add: mkButton_def)
  have c: "lastValidStatus (readButtonWithDebouncing_bd 151 LOW
         (readButtonWithDebouncing_bd 100 LOW (mkButton magazinePin)))
       \<noteq> lastValidStatus (readButtonWithDebouncing_bd 100 LOW (mkButton magazinePin))"
    by (simp add: mkButton_def buttonsDebouncingTimeMs_def readButtonWithDebouncing_bd_def)
  show ?thesis
    using h c debounce_stability [OF h, of 100 "[120, 150]" 151 LOW
        "readButtonWithDebouncing_bd 100 LOW (mkButton magazinePin)"]
      debounce_stability [OF h, of 100 "[120, 150, 151, 200]"]
    by (simp add: mkButton_def buttonsDebouncingTimeMs_def)
qed

text \<open>
  The boundary: the raw level changes at 100 and is still held at 150, a full debounce
  window later, and the debounced state has not followed; when the raw level goes back at
  151 it never does.
\<close>

theorem debounce_boundary_counterexample:
  "(150 :: ulong) - 100 \<ge> buttonsDebouncingTimeMs
   \<and> lastValidStatus (polls [(100, LOW)] (mkButton magazinePin)) = HIGH
   \<and> lastValidStatus (polls [(100, LOW), (150, LOW)] (mkButton magazinePin)) = HIGH
   \<and> lastValidStatus (polls [(100, LOW), (150, LOW), (151, HIGH)] (mkButton magazinePin)) = HIGH
   \<and> lastValidStatus (polls [(100, LOW), (150, LOW), (151, HIGH), (300, HIGH)] (mkButton magazinePin)) = HIGH"
  by (simp add: mkButton_def buttonsDebouncingTimeMs_def readButtonWithDebouncing_bd_def)

subsection \<open>Press duration\<close>

lemma poll_startTime:
  "startTimeMs (readButtonWithDebouncing_bd t r bd) = (if r \<noteq> buttonStatus bd then t else startTimeMs bd)"
  "buttonStatus (readButtonWithDebouncing_bd t r bd) = r"
  by (simp_all add: readButtonWithDebouncing_bd_def Let_def)

lemma polls_startTime:
  "startTimeMs (polls ps bd) = rawChangedAt (startTimeMs bd) (buttonStatus bd) ps"
proof (induction ps arbitrary: bd)
  case Nil
  show ?case by simp
next
  case (Cons p ps)
  obtain t r where p: "p = (t, r)" by (cases p)
  show ?case
    using Cons.IH [of "readButtonWithDebouncing_bd t r bd"]
    by (simp add: p poll_startTime)
qed

text \<open>
  C8, as the code has it. After any sequence of polls, \<^verbatim>\<open>buttonPressDuration\<close> is 0
  when the debounced state is not pressed; when it is pressed, it is the time since the
  last poll that recorded a change of the raw level. At the poll where the debounced state
  becomes pressed the duration is therefore already longer than the debounce window.
\<close>

theorem press_duration_since_raw_change:
  "(lastValidStatus (polls ps bd) \<noteq> BUTTON_PRESSED \<longrightarrow> buttonPressDuration_bd now (polls ps bd) = 0)
   \<and> (lastValidStatus (polls ps bd) = BUTTON_PRESSED \<longrightarrow>
        buttonPressDuration_bd now (polls ps bd)
          = now - rawChangedAt (startTimeMs bd) (buttonStatus bd) ps)
   \<and> (lastValidStatus bd \<noteq> BUTTON_PRESSED
        \<and> lastValidStatus (readButtonWithDebouncing_bd t r bd) = BUTTON_PRESSED \<longrightarrow>
        buttonPressDuration_bd t (readButtonWithDebouncing_bd t r bd) > buttonsDebouncingTimeMs)"
  using poll_commit_only_after_window [of t r bd]
  by (auto simp: buttonPressDuration_bd_def polls_startTime)

theorem press_duration_since_raw_change_witness:
  "lastValidStatus (polls [(100, LOW), (151, LOW)] (mkButton joyUpPin)) = BUTTON_PRESSED
   \<and> buttonPressDuration_bd 200 (polls [(100, LOW), (151, LOW)] (mkButton joyUpPin)) = 100
   \<and> lastValidStatus (polls [(100, LOW)] (mkButton joyUpPin)) \<noteq> BUTTON_PRESSED
   \<and> buttonPressDuration_bd 200 (polls [(100, LOW)] (mkButton joyUpPin)) = 0
   \<and> buttonPressDuration_bd 151 (readButtonWithDebouncing_bd 151 LOW (polls [(100, LOW)] (mkButton joyUpPin))) = 51"
  using press_duration_since_raw_change [of "[(100, LOW), (151, LOW)]" "mkButton joyUpPin" 200]
    press_duration_since_raw_change [of "[(100, LOW)]" "mkButton joyUpPin" 200 151 LOW]
    press_duration_since_raw_change [of "[]" "polls [(100, LOW)] (mkButton joyUpPin)" 151 151 LOW]
  by (simp add: mkButton_def buttonsDebouncingTimeMs_def readButtonWithDebouncing_bd_def buttonPressDuration_bd_def)

text \<open>
  The raw level goes low at 100 and the debounced state becomes pressed at the poll of
  151. At 200 the debounced state has been pressed for 49 ms; the code reports 100.
\<close>

theorem press_duration_counterexample:
  "lastValidStatus (polls [(100, LOW)] (mkButton joyUpPin)) = BUTTON_RELEASED
   \<and> lastValidStatus (polls [(100, LOW), (151, LOW)] (mkButton joyUpPin)) = BUTTON_PRESSED
   \<and> debouncedPressedSince None [(100, LOW), (151, LOW)] (mkButton joyUpPin) = Some 151
   \<and> pressDuration_spec 200 (debouncedPressedSince None [(100, LOW), (151, LOW)] (mkButton joyUpPin)) = 49
   \<and> buttonPressDuration_bd 200 (polls [(100, LOW), (151, LOW)] (mkButton joyUpPin)) = 100"
  by (simp add: mkButton_def buttonsDebouncingTimeMs_def readButtonWithDebouncing_bd_def
      buttonPressDuration_bd_def pressDuration_spec_def Let_def)

section \<open>What the menu leaves alone\<close>

lemma core_updates [simp]:
  "core (s\<lparr>buttons := b\<rparr>) = core s"
  "core (s\<lparr>menuMode := i\<rparr>) = core s"
  "core (s\<lparr>currMenuPage := i\<rparr>) = core s"
  "core (s\<lparr>currMenuPageNumSettings := i\<rparr>) = core s"
  "core (s\<lparr>currMenuCursorPos := i\<rparr>) = core s"
  "core (s\<lparr>currMenuPageFirstSettingId := i\<rparr>) = core s"
  "core (s\<lparr>currPressStartTimeMs := t\<rparr>) = core s"
  "core (s\<lparr>currPressButtonId := i\<rparr>) = core s"
  "core (s\<lparr>lastModificationTimeMs := t\<rparr>) = core s"
  "core (s\<lparr>tempSettings := ts\<rparr>) = core s"
  "core (s\<lparr>settingValue := v\<rparr>) = core s"
  by (simp_all add: core_def)

lemma thereIsANewPress_core:
  "thereIsANewPress b s = (r, s') \<Longrightarrow> core s' = core s \<and> tempSettings s' = tempSettings s"
  by (auto simp: thereIsANewPress_def split: prod.splits)

lemma moveMenuCursorTo_core [simp]:
  "core (moveMenuCursorTo r s) = core s" "tempSettings (moveMenuCursorTo r s) = tempSettings s"
  by (simp_all add: moveMenuCursorTo_def)

lemma displayMenuPage_core [simp]:
  "core (displayMenuPage p r s) = core s" "tempSettings (displayMenuPage p r s) = tempSettings s"
  by (simp_all add: displayMenuPage_def)

lemma moveMenuCursorUp_core [simp]:
  "core (moveMenuCursorUp s) = core s" "tempSettings (moveMenuCursorUp s) = tempSettings s"
  by (simp_all add: moveMenuCursorUp_def Let_def)

lemma moveMenuCursorDown_core [simp]:
  "core (moveMenuCursorDown s) = core s" "tempSettings (moveMenuCursorDown s) = tempSettings s"
  by (simp_all add: moveMenuCursorDown_def)

lemma getSettingValue_core [simp]:
  "core (getSettingValue i s) = core s" "tempSettings (getSettingValue i s) = tempSettings s"
  by (simp_all add: getSettingValue_def initSettingValueUInt_def initSettingValueBool_def)

lemma displayPageForSettingModify_core [simp]:
  "core (displayPageForSettingModify s) = core s"
  "tempSettings (displayPageForSettingModify s) = tempSettings s"
  by (simp_all add: displayPageForSettingModify_def Let_def)

lemma updateMenuPage_core:
  "core (snd (updateMenuPage s)) = core s \<and> tempSettings (snd (updateMenuPage s)) = tempSettings s"
  by (auto simp: updateMenuPage_def split: prod.splits dest!: thereIsANewPress_core)

lemma commitSetting_core [simp]: "core (commitSetting s) = core s"
  by (simp add: commitSetting_def split: SettingValue.splits)

lemma incDec_core [simp]: "core (incDecAndDisplaySettingValue d b s) = core s"
  by (simp add: incDecAndDisplaySettingValue_def split: SettingValue.splits)

lemma updateMenuSettingBool_core: "core (updateMenuSettingBool s) = core s"
  by (auto simp: updateMenuSettingBool_def Let_def
      split: prod.splits SettingValue.splits dest!: thereIsANewPress_core)

lemma manageCursorUpDown_core: "core (snd (manageCursorUpDown inp b d s)) = core s"
  by (auto simp: manageCursorUpDown_def Let_def split: prod.splits dest!: thereIsANewPress_core)

lemma updateMenuSettingUInt_core: "core (updateMenuSettingUInt inp s) = core s"
  using manageCursorUpDown_core [of inp ID_BUTTON_JOY_UP True s]
    manageCursorUpDown_core [of inp ID_BUTTON_JOY_DOWN False "snd (manageCursorUpDown inp ID_BUTTON_JOY_UP True s)"]
  by (auto simp: updateMenuSettingUInt_def split: prod.splits)

lemma updateMenuSetting_core: "core (updateMenuSetting inp s) = core s"
  by (auto simp: updateMenuSetting_def updateMenuSettingUInt_core updateMenuSettingBool_core
      split: prod.splits SettingValue.splits dest!: thereIsANewPress_core)

lemma updateMenu_core: "core (snd (updateMenu inp s)) = core s"
  by (simp add: updateMenu_def updateMenuPage_core updateMenuSetting_core)

lemma updateMenu_save_tempSettings:
  "fst (updateMenu inp s) \<noteq> MENU_CONTINUE \<Longrightarrow> tempSettings (snd (updateMenu inp s)) = tempSettings s"
  by (auto simp: updateMenu_def updateMenuPage_core split: if_splits)

lemma core_fields:
  "core s' = core s \<Longrightarrow> settings s' = settings s \<and> shotCount s' = shotCount s
     \<and> currBurstShotCount s' = currBurstShotCount s \<and> reloadStatus s' = reloadStatus s
     \<and> status s' = status s \<and> outLog s' = outLog s \<and> eeprom s' = eeprom s"
  by (simp add: core_def)

lemma manageStatusMenu_step:
  "shotCount (manageStatusMenu inp s) = shotCount s
   \<and> currBurstShotCount (manageStatusMenu inp s) = currBurstShotCount s
   \<and> reloadStatus (manageStatusMenu inp s) = reloadStatus s
   \<and> (status (manageStatusMenu inp s) = status s \<or> status (manageStatusMenu inp s) = STATUS_IDLE)
   \<and> (settings (manageStatusMenu inp s) = settings s
        \<or> settings (manageStatusMenu inp s) = tempSettings s)
   \<and> shotsFired (outLog (manageStatusMenu inp s)) = shotsFired (outLog s)"
proof -
  obtain r s1 where u: "updateMenu inp s = (r, s1)" by (cases "updateMenu inp s")
  have c: "core s1 = core s" using updateMenu_core [of inp s] u by simp
  have t: "r \<noteq> MENU_CONTINUE \<Longrightarrow> tempSettings s1 = tempSettings s"
    using updateMenu_save_tempSettings [of inp s] u by simp
  show ?thesis
    using core_fields [OF c] t
    by (auto simp: manageStatusMenu_def u transitionToStatusIdle_def
        saveNewSettingsToEepromAndDisplayExitMessage_def commitSettings_def
        displayMenuExitMessage_def emit_def saveSettingsToEeprom_def shotsFired_def
        split: prod.splits if_splits)
qed

section \<open>Force-reload switched off\<close>

lemma manageStatusIdle_step:
  "shotCount (manageStatusIdle inp s) = shotCount s
   \<and> settings (manageStatusIdle inp s) = settings s
   \<and> reloadStatus (manageStatusIdle inp s) = reloadStatus s
   \<and> outLog (manageStatusIdle inp s) = outLog s
   \<and> (status (manageStatusIdle inp s) = status s
        \<or> status (manageStatusIdle inp s) = STATUS_SEMI_AUTO
        \<or> status (manageStatusIdle inp s) = STATUS_FULL_AUTO
        \<or> status (manageStatusIdle inp s) = STATUS_MENU)"
proof -
  obtain r s1 where u: "thereIsANewJoySelectPress s = (r, s1)"
    by (cases "thereIsANewJoySelectPress s")
  then have c: "core s1 = core s"
    using thereIsANewPress_core [of ID_BUTTON_JOY_SELECT s r s1]
    by (simp add: thereIsANewJoySelectPress_def)
  have d: "core (displayFirstMenuPage s1) = core s1"
    by (simp add: displayFirstMenuPage_def)
  show ?thesis
    using core_fields [OF c] core_fields [OF d]
    by (simp add: manageStatusIdle_def u transitionToStatusFullAuto_def
        transitionToStatusSemiAuto_def transitionToStatusMenu_def)
qed

lemma doOneShot_forceReload_off:
  "\<not> forceReload (settings s) \<Longrightarrow> doOneShot s = (True, fireShot s)"
  by (simp add: doOneShot_def)

lemma fireShot_fields:
  "status (fireShot s) = status s" "shotCount (fireShot s) = shotCount s"
  "settings (fireShot s) = settings s" "reloadStatus (fireShot s) = reloadStatus s"
  "currBurstShotCount (fireShot s) = currBurstShotCount s"
  "buttons (fireShot s) = buttons s"
  by (simp_all add: fireShot_def emit_def)

lemma firing_handlers_forceReload_off:
  assumes "\<not> forceReload (settings s)"
    and "status s = STATUS_FULL_AUTO \<or> status s = STATUS_SEMI_AUTO
          \<or> status s = STATUS_BINARY_TRIGGER_TAIL"
  shows "status (dispatch inp s) \<noteq> STATUS_RELOAD \<and> shotCount (dispatch inp s) = shotCount s
     \<and> settings (dispatch inp s) = settings s"
  using assms
  by (auto simp: dispatch_def manageStatusFullAuto_def manageStatusSemiAuto_def
      manageStatusBinaryTriggerTail_def doNextShotAndGoToStatusReloadIfShotError_def
      doOneShot_forceReload_off fireShot_fields transitionToStatusIdle_def emit_def
      transitionToStatusBinaryTriggerTail_def)

lemma dispatch_forceReload_off:
  assumes "\<not> forceReload (settings s)" and "status s \<noteq> STATUS_RELOAD"
  shows "status (dispatch inp s) \<noteq> STATUS_RELOAD \<and> shotCount (dispatch inp s) = shotCount s"
proof -
  consider (idle) "status s = STATUS_IDLE" | (menu) "status s = STATUS_MENU"
    | (fire) "status s = STATUS_FULL_AUTO \<or> status s = STATUS_SEMI_AUTO
          \<or> status s = STATUS_BINARY_TRIGGER_TAIL"
    | (other) "status s \<noteq> STATUS_IDLE" "status s \<noteq> STATUS_MENU" "status s \<noteq> STATUS_FULL_AUTO"
        "status s \<noteq> STATUS_SEMI_AUTO" "status s \<noteq> STATUS_BINARY_TRIGGER_TAIL"
    by blast
  then show ?thesis
  proof cases
    case idle
    then show ?thesis
      using manageStatusIdle_step [of inp s] by (auto simp: dispatch_def)
  next
    case menu
    then show ?thesis
      using manageStatusMenu_step [of inp s] by (auto simp: dispatch_def)
  next
    case fire
    then show ?thesis
      using firing_handlers_forceReload_off [OF assms(1), of inp] by simp
  next
    case other
    then show ?thesis
      using assms(2) by (simp add: dispatch_def)
  qed
qed

lemma loop_forceReload_off:
  assumes "\<not> forceReload (settings s)" and "status s \<noteq> STATUS_RELOAD"
  shows "status (loop inp s) \<noteq> STATUS_RELOAD \<and> shotCount (loop inp s) = shotCount s"
  using dispatch_forceReload_off [of "readAllButtons inp s" inp] assms
  by (simp add: loop_def readAllButtons_fields)

lemma run_forceReload_off:
  "forceReloadOffThroughout inps s \<Longrightarrow> status s \<noteq> STATUS_RELOAD \<Longrightarrow>
   status (run inps s) \<noteq> STATUS_RELOAD \<and> shotCount (run inps s) = shotCount s"
proof (induction inps arbitrary: s)
  case Nil
  then show ?case by simp
next
  case (Cons inp inps)
  have off: "\<not> forceReload (settings s)" and rest: "forceReloadOffThroughout inps (loop inp s)"
    using Cons.prems(1) by simp_all
  have step: "status (loop inp s) \<noteq> STATUS_RELOAD" "shotCount (loop inp s) = shotCount s"
    using loop_forceReload_off [OF off Cons.prems(2), of inp] by simp_all
  show ?case
    using Cons.IH [OF rest step(1)] step(2) by simp
qed

text \<open>
  C10. With force-reload off, \<^verbatim>\<open>doOneShot\<close> returns true and leaves \<open>shotCount\<close>
  alone; an iteration that starts in FULL_AUTO, SEMI_AUTO or BINARY_TRIGGER_TAIL does not
  end in RELOAD; and along any run in which force-reload is off in every state, starting
  outside RELOAD, the machine never is in RELOAD and \<open>shotCount\<close> never changes.
\<close>

theorem no_reload_without_forceReload:
  "(\<not> forceReload (settings s) \<longrightarrow>
      fst (doOneShot s) \<and> shotCount (snd (doOneShot s)) = shotCount s)
   \<and> (\<not> forceReload (settings s)
        \<and> (status s = STATUS_FULL_AUTO \<or> status s = STATUS_SEMI_AUTO
             \<or> status s = STATUS_BINARY_TRIGGER_TAIL) \<longrightarrow>
      status (loop inp s) \<noteq> STATUS_RELOAD)
   \<and> (forceReloadOffThroughout inps s \<and> status s \<noteq> STATUS_RELOAD \<longrightarrow>
      status (run inps s) \<noteq> STATUS_RELOAD \<and> shotCount (run inps s) = shotCount s)"
  using loop_forceReload_off [of s inp] run_forceReload_off [of inps s]
  by (auto simp: doOneShot_forceReload_off fireShot_fields)

theorem no_reload_without_forceReload_witness:
  "forceReloadOffThroughout triggerHeld6 (setupFcu (Some limit2NoForceReload))
   \<and> status (setupFcu (Some limit2NoForceReload)) \<noteq> STATUS_RELOAD
   \<and> status (run (take 2 triggerHeld6) (setupFcu (Some limit2NoForceReload))) = STATUS_SEMI_AUTO
   \<and> status (run triggerHeld6 (setupFcu (Some limit2NoForceReload))) \<noteq> STATUS_RELOAD
   \<and> shotCount (run triggerHeld6 (setupFcu (Some limit2NoForceReload))) = 0
   \<and> shotsFired (outLog (run triggerHeld6 (setupFcu (Some limit2NoForceReload)))) = 3
   \<and> fst (doOneShot (run (take 2 triggerHeld6) (setupFcu (Some limit2NoForceReload))))
   \<and> status (loop (hd triggerHeld6)
        (run (take 2 triggerHeld6) (setupFcu (Some limit2NoForceReload)))) \<noteq> STATUS_RELOAD"
proof -
  have h: "forceReloadOffThroughout triggerHeld6 (setupFcu (Some limit2NoForceReload))"
    by code_simp
  have h0: "status (setupFcu (Some limit2NoForceReload)) \<noteq> STATUS_RELOAD" by code_simp
  have h1: "status (run (take 2 triggerHeld6) (setupFcu (Some limit2NoForceReload))) = STATUS_SEMI_AUTO"
    by code_simp
  have h2: "\<not> forceReload (settings (run (take 2 triggerHeld6) (setupFcu (Some limit2NoForceReload))))"
    by code_simp
  have h3: "shotsFired (outLog (run triggerHeld6 (setupFcu (Some limit2NoForceReload)))) = 3"
    by code_simp
  have h4: "shotCount (setupFcu (Some limit2NoForceReload)) = 0" by code_simp
  show ?thesis
    using h h0 h1 h2 h3 h4
      no_reload_without_forceReload [of "setupFcu (Some limit2NoForceReload)" "hd triggerHeld6" triggerHeld6]
      no_reload_without_forceReload [of "run (take 2 triggerHeld6) (setupFcu (Some limit2NoForceReload))" "hd triggerHeld6" "[]"]
    by simp
qed

section \<open>Leaving IDLE on a trigger press\<close>

text \<open>
  C9, as the code has it. An iteration that starts in IDLE with the trigger pressed ends
  in FULL_AUTO when the fire selector is in the auto position and in SEMI_AUTO otherwise;
  the burst counter is reset to 0 on entry to SEMI_AUTO and is left as it was on entry to
  FULL_AUTO.
\<close>

theorem idle_trigger_press_entry:
  assumes "status s = STATUS_IDLE" and "isTriggerPressed inp"
  shows "status (loop inp s)
           = (if isFireSelectorInAutoPosition (readAllButtons inp s)
              then STATUS_FULL_AUTO else STATUS_SEMI_AUTO)
     \<and> currBurstShotCount (loop inp s)
           = (if isFireSelectorInAutoPosition (readAllButtons inp s)
              then currBurstShotCount s else 0)"
  using assms
  by (simp add: loop_def dispatch_def manageStatusIdle_def transitionToStatusFullAuto_def
      transitionToStatusSemiAuto_def readAllButtons_fields)

theorem idle_trigger_press_entry_witness:
  "status (setupFcu None) = STATUS_IDLE \<and> isTriggerPressed (inputsAt 0 [triggerPin])
   \<and> status (loop (inputsAt 0 [triggerPin]) (setupFcu None)) = STATUS_SEMI_AUTO
   \<and> currBurstShotCount (loop (inputsAt 0 [triggerPin]) (setupFcu None)) = 0"
proof -
  have h1: "status (setupFcu None) = STATUS_IDLE" by code_simp
  have h2: "isTriggerPressed (inputsAt 0 [triggerPin])" by code_simp
  have h3: "\<not> isFireSelectorInAutoPosition (readAllButtons (inputsAt 0 [triggerPin]) (setupFcu None))"
    by code_simp
  show ?thesis
    using h1 h2 h3 idle_trigger_press_entry [OF h1 h2] by simp
qed

text \<open>
  After a completed burst of three the machine is back in IDLE with the burst counter at
  3; the next trigger pull with the selector in the auto position enters FULL_AUTO with
  the counter still at 3.
\<close>

theorem full_auto_entry_counterexample:
  "status (run (butlast burstThenFullAuto) (setupFcu None)) = STATUS_IDLE
   \<and> isTriggerPressed (last burstThenFullAuto)
   \<and> isFireSelectorInAutoPosition
        (readAllButtons (last burstThenFullAuto) (run (butlast burstThenFullAuto) (setupFcu None)))
   \<and> status (run burstThenFullAuto (setupFcu None)) = STATUS_FULL_AUTO
   \<and> currBurstShotCount (run burstThenFullAuto (setupFcu None)) = 3"
  by code_simp

section \<open>The reload cycle\<close>

lemma loop_reload_out:
  assumes "status s = STATUS_RELOAD" "reloadStatus s = RELOAD_WAITING_FOR_MAGAZINE_OUT"
  shows "loop inp s = (if isMagazineButtonPressed (readAllButtons inp s)
                       then readAllButtons inp s
                       else (readAllButtons inp s)\<lparr>reloadStatus := RELOAD_WAITING_FOR_MAGAZINE_IN\<rparr>)"
  using assms by (simp add: loop_def dispatch_def manageStatusReload_def readAllButtons_fields)

lemma loop_reload_in:
  assumes "status s = STATUS_RELOAD" "reloadStatus s = RELOAD_WAITING_FOR_MAGAZINE_IN"
  shows "loop inp s = (if isMagazineButtonPressed (readAllButtons inp s)
                       then transitionToStatusIdle ((readAllButtons inp s)\<lparr>shotCount := 0\<rparr>)
                       else readAllButtons inp s)"
  using assms by (simp add: loop_def dispatch_def manageStatusReload_def readAllButtons_fields)

lemma run_reload_in:
  "status s = STATUS_RELOAD \<Longrightarrow> reloadStatus s = RELOAD_WAITING_FOR_MAGAZINE_IN \<Longrightarrow>
   True \<notin> set (magazineSeen inps s) \<Longrightarrow>
   status (run inps s) = STATUS_RELOAD
   \<and> reloadStatus (run inps s) = RELOAD_WAITING_FOR_MAGAZINE_IN
   \<and> shotCount (run inps s) = shotCount s \<and> outLog (run inps s) = outLog s"
proof (induction inps arbitrary: s)
  case Nil
  then show ?case by simp
next
  case (Cons inp inps)
  have seen: "\<not> isMagazineButtonPressed (readAllButtons inp s)"
    and rest: "True \<notin> set (magazineSeen inps (loop inp s))"
    using Cons.prems(3) by auto
  have step: "loop inp s = readAllButtons inp s"
    using loop_reload_in [OF Cons.prems(1,2), of inp] seen by simp
  have f: "status (loop inp s) = STATUS_RELOAD"
    "reloadStatus (loop inp s) = RELOAD_WAITING_FOR_MAGAZINE_IN"
    "shotCount (loop inp s) = shotCount s" "outLog (loop inp s) = outLog s"
    using Cons.prems(1,2) by (simp_all add: step readAllButtons_fields)
  show ?case
    using Cons.IH [OF f(1,2) rest] f(3,4) by simp
qed

lemma run_reload_out:
  "status s = STATUS_RELOAD \<Longrightarrow> reloadStatus s = RELOAD_WAITING_FOR_MAGAZINE_OUT \<Longrightarrow>
   \<not> removedThenInserted (magazineSeen inps s) \<Longrightarrow>
   status (run inps s) = STATUS_RELOAD
   \<and> reloadStatus (run inps s)
       = (if False \<in> set (magazineSeen inps s) then RELOAD_WAITING_FOR_MAGAZINE_IN
          else RELOAD_WAITING_FOR_MAGAZINE_OUT)
   \<and> shotCount (run inps s) = shotCount s \<and> outLog (run inps s) = outLog s"
proof (induction inps arbitrary: s)
  case Nil
  then show ?case by simp
next
  case (Cons inp inps)
  show ?case
  proof (cases "isMagazineButtonPressed (readAllButtons inp s)")
    case True
    have step: "loop inp s = readAllButtons inp s"
      using loop_reload_out [OF Cons.prems(1,2), of inp] True by simp
    have f: "status (loop inp s) = STATUS_RELOAD"
      "reloadStatus (loop inp s) = RELOAD_WAITING_FOR_MAGAZINE_OUT"
      "shotCount (loop inp s) = shotCount s" "outLog (loop inp s) = outLog s"
      using Cons.prems(1,2) by (simp_all add: step readAllButtons_fields)
    have rest: "\<not> removedThenInserted (magazineSeen inps (loop inp s))"
      using Cons.prems(3) True by simp
    show ?thesis
      using Cons.IH [OF f(1,2) rest] f(3,4) True by simp
  next
    case False
    have step: "loop inp s = (readAllButtons inp s)\<lparr>reloadStatus := RELOAD_WAITING_FOR_MAGAZINE_IN\<rparr>"
      using loop_reload_out [OF Cons.prems(1,2), of inp] False by simp
    have f: "status (loop inp s) = STATUS_RELOAD"
      "reloadStatus (loop inp s) = RELOAD_WAITING_FOR_MAGAZINE_IN"
      "shotCount (loop inp s) = shotCount s" "outLog (loop inp s) = outLog s"
      using Cons.prems(1) by (simp_all add: step readAllButtons_fields)
    have rest: "True \<notin> set (magazineSeen inps (loop inp s))"
      using Cons.prems(3) False by simp
    show ?thesis
      using run_reload_in [OF f(1,2) rest] f(3,4) False by simp
  qed
qed

lemma run_snoc: "run (inps @ [inp]) s = loop inp (run inps s)"
  by (induction inps arbitrary: s) simp_all

lemma magazineSeen_snoc:
  "magazineSeen (inps @ [inp]) s
     = magazineSeen inps s @ [isMagazineButtonPressed (readAllButtons inp (run inps s))]"
  by (induction inps arbitrary: s) simp_all

lemma removedThenInserted_snoc:
  "\<not> removedThenInserted obs \<Longrightarrow>
   removedThenInserted (obs @ [x]) = (x \<and> False \<in> set obs)"
proof (induction obs rule: removedThenInserted.induct)
  case 1
  then show ?case by (cases x) simp_all
next
  case (2 obs)
  then show ?case by simp
next
  case (3 obs)
  then show ?case by auto
qed

lemma removedThenInserted_index:
  "removedThenInserted obs = (\<exists>i j. i < j \<and> j < length obs \<and> \<not> obs ! i \<and> obs ! j)"
proof (induction obs rule: removedThenInserted.induct)
  case 1
  show ?case by simp
next
  case (2 obs)
  have "(\<exists>i j. i < j \<and> j < length (True # obs) \<and> \<not> (True # obs) ! i \<and> (True # obs) ! j)
      = (\<exists>i j. i < j \<and> j < length obs \<and> \<not> obs ! i \<and> obs ! j)" (is "?L = ?R")
  proof
    assume ?L
    then obtain i j where ij: "i < j" "j < length (True # obs)" "\<not> (True # obs) ! i" "(True # obs) ! j"
      by blast
    from ij(3) obtain i' where i': "i = Suc i'" by (cases i) simp_all
    from ij(1) i' obtain j' where j': "j = Suc j'" by (cases j) simp_all
    show ?R using ij i' j' by (intro exI [of _ i'] exI [of _ j']) simp
  next
    assume ?R
    then obtain i j where "i < j" "j < length obs" "\<not> obs ! i" "obs ! j" by blast
    then show ?L by (intro exI [of _ "Suc i"] exI [of _ "Suc j"]) simp
  qed
  with 2 show ?case by simp
next
  case (3 obs)
  have "(True \<in> set obs) = (\<exists>i j. i < j \<and> j < length (False # obs) \<and> \<not> (False # obs) ! i \<and> (False # obs) ! j)"
    (is "?L = ?R")
  proof
    assume ?L
    then obtain k where "k < length obs" "obs ! k" by (auto simp: in_set_conv_nth)
    then show ?R by (intro exI [of _ 0] exI [of _ "Suc k"]) simp
  next
    assume ?R
    then obtain i j where ij: "i < j" "j < length (False # obs)" "(False # obs) ! j" by blast
    from ij(1) obtain j' where j': "j = Suc j'" by (cases j) simp_all
    then have "j' < length obs" "obs ! j'" using ij by simp_all
    then show ?L by (auto simp: in_set_conv_nth)
  qed
  then show ?case by simp
qed

lemma length_magazineSeen: "length (magazineSeen inps s) = length inps"
  by (induction inps arbitrary: s) simp_all

lemma removedThenInserted_needs_removal:
  "removedThenInserted obs \<Longrightarrow> False \<in> set obs"
  by (induction obs rule: removedThenInserted.induct) simp_all

text \<open>
  C4. Take any run that starts on entry to RELOAD. As long as the magazine switch has not
  been seen "not present" in one iteration and "present" in a later one, the machine is
  still in RELOAD and \<open>shotCount\<close> is untouched; the iteration that completes this
  pattern ends in IDLE with \<open>shotCount = 0\<close>; and a run in which the switch is seen
  "present" in every iteration stays in RELOAD. The last conjunct spells the pattern out
  by positions in the run.
\<close>

theorem reload_cycle:
  "(\<not> removedThenInserted (magazineSeen inps (transitionToStatusReload s)) \<longrightarrow>
      status (run inps (transitionToStatusReload s)) = STATUS_RELOAD
      \<and> shotCount (run inps (transitionToStatusReload s)) = shotCount s)
   \<and> (\<not> removedThenInserted (magazineSeen inps (transitionToStatusReload s))
        \<and> removedThenInserted (magazineSeen (inps @ [inp]) (transitionToStatusReload s)) \<longrightarrow>
      status (run (inps @ [inp]) (transitionToStatusReload s)) = STATUS_IDLE
      \<and> shotCount (run (inps @ [inp]) (transitionToStatusReload s)) = 0)
   \<and> (False \<notin> set (magazineSeen inps (transitionToStatusReload s)) \<longrightarrow>
      status (run inps (transitionToStatusReload s)) = STATUS_RELOAD)
   \<and> removedThenInserted (magazineSeen inps (transitionToStatusReload s))
       = (\<exists>i j. i < j \<and> j < length inps
            \<and> \<not> magazineSeen inps (transitionToStatusReload s) ! i
            \<and> magazineSeen inps (transitionToStatusReload s) ! j)"
proof -
  let ?s0 = "transitionToStatusReload s"
  let ?obs = "magazineSeen inps ?s0"
  have s0: "status ?s0 = STATUS_RELOAD" "reloadStatus ?s0 = RELOAD_WAITING_FOR_MAGAZINE_OUT"
    and sc0: "shotCount ?s0 = shotCount s"
    by (simp_all add: transitionToStatusReload_def)
  have stay: "status (run inps ?s0) = STATUS_RELOAD \<and> shotCount (run inps ?s0) = shotCount s"
    if "\<not> removedThenInserted ?obs"
    using run_reload_out [OF s0 that] sc0 by simp
  have complete: "status (run (inps @ [inp]) ?s0) = STATUS_IDLE
      \<and> shotCount (run (inps @ [inp]) ?s0) = 0"
    if no: "\<not> removedThenInserted ?obs"
      and yes: "removedThenInserted (magazineSeen (inps @ [inp]) ?s0)"
  proof -
    let ?s1 = "run inps ?s0"
    have "isMagazineButtonPressed (readAllButtons inp ?s1) \<and> False \<in> set ?obs"
      using yes removedThenInserted_snoc [OF no] by (simp add: magazineSeen_snoc)
    then have pressed: "isMagazineButtonPressed (readAllButtons inp ?s1)"
      and removed: "False \<in> set ?obs" by simp_all
    have s1: "status ?s1 = STATUS_RELOAD" "reloadStatus ?s1 = RELOAD_WAITING_FOR_MAGAZINE_IN"
      using run_reload_out [OF s0 no] removed by simp_all
    show ?thesis
      using loop_reload_in [OF s1, of inp] pressed
      by (simp add: run_snoc transitionToStatusIdle_def)
  qed
  have always_present: "status (run inps ?s0) = STATUS_RELOAD" if "False \<notin> set ?obs"
    using stay removedThenInserted_needs_removal [of ?obs] that by blast
  have pattern: "removedThenInserted ?obs
       = (\<exists>i j. i < j \<and> j < length inps \<and> \<not> ?obs ! i \<and> ?obs ! j)"
    using removedThenInserted_index [of ?obs] by (simp add: length_magazineSeen)
  show ?thesis
    using stay complete always_present pattern by blast
qed

theorem reload_cycle_witness:
  "\<not> removedThenInserted (magazineSeen (butlast magazineOutThenIn) (transitionToStatusReload magazineInPlace))
   \<and> removedThenInserted (magazineSeen magazineOutThenIn (transitionToStatusReload magazineInPlace))
   \<and> status (run (butlast magazineOutThenIn) (transitionToStatusReload magazineInPlace)) = STATUS_RELOAD
   \<and> shotCount (run (butlast magazineOutThenIn) (transitionToStatusReload magazineInPlace)) = 30
   \<and> status (run magazineOutThenIn (transitionToStatusReload magazineInPlace)) = STATUS_IDLE
   \<and> shotCount (run magazineOutThenIn (transitionToStatusReload magazineInPlace)) = 0
   \<and> False \<notin> set (magazineSeen magazineStaysIn (transitionToStatusReload magazineInPlace))
   \<and> status (run magazineStaysIn (transitionToStatusReload magazineInPlace)) = STATUS_RELOAD"
proof -
  have h1: "\<not> removedThenInserted
              (magazineSeen (butlast magazineOutThenIn) (transitionToStatusReload magazineInPlace))"
    by code_simp
  have h2: "removedThenInserted
              (magazineSeen (butlast magazineOutThenIn @ [last magazineOutThenIn])
                 (transitionToStatusReload magazineInPlace))"
    by code_simp
  have h3: "False \<notin> set (magazineSeen magazineStaysIn (transitionToStatusReload magazineInPlace))"
    by code_simp
  have h4: "butlast magazineOutThenIn @ [last magazineOutThenIn] = magazineOutThenIn"
    by (simp add: magazineOutThenIn_def)
  have h5: "shotCount magazineInPlace = 30"
    by (simp add: magazineInPlace_def)
  show ?thesis
    using h1 h2 h3 h5
      reload_cycle [of "butlast magazineOutThenIn" magazineInPlace "last magazineOutThenIn"]
      reload_cycle [of magazineStaysIn magazineInPlace "last magazineOutThenIn"]
    by (simp add: h4)
qed

section \<open>The bound on the shot counter\<close>

lemma firing_handlers_bound:
  assumes "shotCountWithinLimit s"
    and "status s = STATUS_FULL_AUTO \<or> status s = STATUS_SEMI_AUTO
          \<or> status s = STATUS_BINARY_TRIGGER_TAIL"
  shows "shotCountWithinLimit (dispatch inp s)"
proof -
  have one: "shotCountWithinLimit (snd (doOneShot s)) \<and> settings (snd (doOneShot s)) = settings s"
    using assms(1)
    by (auto simp: shotCountWithinLimit_def doOneShot_def fireShot_fields not_le inc_le)
  obtain ok s1 where d: "doOneShot s = (ok, s1)" by (cases "doOneShot s")
  have s1: "shotCount s1 \<le> shotLimit (settings s)" "settings s1 = settings s"
    using one d by (auto simp: shotCountWithinLimit_def)
  show ?thesis
    using assms s1
    by (auto simp: dispatch_def manageStatusFullAuto_def manageStatusSemiAuto_def
        manageStatusBinaryTriggerTail_def doNextShotAndGoToStatusReloadIfShotError_def d
        shotCountWithinLimit_def transitionToStatusIdle_def transitionToStatusReload_def
        emit_def transitionToStatusBinaryTriggerTail_def)
qed

lemma manageStatusReload_bound:
  "shotCountWithinLimit s \<Longrightarrow> shotCountWithinLimit (manageStatusReload s)"
  by (simp add: shotCountWithinLimit_def manageStatusReload_def transitionToStatusIdle_def)

lemma dispatch_bound:
  assumes "shotCountWithinLimit s"
    and "status s \<noteq> STATUS_MENU \<or> shotCount s \<le> shotLimit (tempSettings s)"
  shows "shotCountWithinLimit (dispatch inp s)"
proof -
  consider (idle) "status s = STATUS_IDLE" | (menu) "status s = STATUS_MENU"
    | (fire) "status s = STATUS_FULL_AUTO \<or> status s = STATUS_SEMI_AUTO
          \<or> status s = STATUS_BINARY_TRIGGER_TAIL"
    | (reload) "status s = STATUS_RELOAD"
    | (other) "status s \<noteq> STATUS_IDLE" "status s \<noteq> STATUS_MENU" "status s \<noteq> STATUS_FULL_AUTO"
        "status s \<noteq> STATUS_SEMI_AUTO" "status s \<noteq> STATUS_BINARY_TRIGGER_TAIL"
        "status s \<noteq> STATUS_RELOAD"
    by blast
  then show ?thesis
  proof cases
    case idle
    then show ?thesis
      using manageStatusIdle_step [of inp s] assms(1)
      by (auto simp: dispatch_def shotCountWithinLimit_def)
  next
    case menu
    then show ?thesis
      using manageStatusMenu_step [of inp s] assms
      by (auto simp: dispatch_def shotCountWithinLimit_def)
  next
    case fire
    then show ?thesis
      using firing_handlers_bound [OF assms(1), of inp] by simp
  next
    case reload
    then show ?thesis
      using manageStatusReload_bound [OF assms(1)] by (simp add: dispatch_def)
  next
    case other
    then show ?thesis
      using assms(1) by (simp add: dispatch_def)
  qed
qed

text \<open>
  C7, as the code has it. \<open>shotCount\<close> is unsigned, so it is never below 0. Firing a
  shot and the RELOAD handler (completing a reload included) preserve
  \<open>shotCount \<le> shotLimit\<close>, and so does every iteration of the loop, unless it is in
  MENU with a pending shot limit below the current \<open>shotCount\<close>: the menu's commit
  replaces the settings without looking at the counter.
\<close>

theorem shotCount_bound_preserved:
  "0 \<le> shotCount s
   \<and> (shotCountWithinLimit s \<longrightarrow> shotCountWithinLimit (snd (doOneShot s)))
   \<and> (shotCountWithinLimit s \<longrightarrow> shotCountWithinLimit (manageStatusReload s))
   \<and> (shotCountWithinLimit s
        \<and> (status s \<noteq> STATUS_MENU \<or> shotCount s \<le> shotLimit (tempSettings s)) \<longrightarrow>
      shotCountWithinLimit (loop inp s))"
proof -
  have shot: "shotCountWithinLimit (snd (doOneShot s))" if "shotCountWithinLimit s"
    using that by (auto simp: shotCountWithinLimit_def doOneShot_def fireShot_fields not_le inc_le)
  have lp: "shotCountWithinLimit (loop inp s)"
    if "shotCountWithinLimit s"
      and "status s \<noteq> STATUS_MENU \<or> shotCount s \<le> shotLimit (tempSettings s)"
    using dispatch_bound [of "readAllButtons inp s" inp] that
    by (simp add: loop_def readAllButtons_fields shotCountWithinLimit_def)
  show ?thesis
    using shot lp manageStatusReload_bound [of s] by simp
qed

theorem shotCount_bound_preserved_witness:
  "shotCountWithinLimit semiAutoAt29
   \<and> shotCountWithinLimit (snd (doOneShot semiAutoAt29))
   \<and> shotCountWithinLimit (loop (inputsAt 0 [triggerPin]) semiAutoAt29)
   \<and> shotCountWithinLimit (manageStatusReload semiAutoAt29)
   \<and> status (transitionToStatusMenu semiAutoAt29) = STATUS_MENU
   \<and> shotCount (transitionToStatusMenu semiAutoAt29)
       \<le> shotLimit (tempSettings (transitionToStatusMenu semiAutoAt29))
   \<and> shotCountWithinLimit (loop (inputsAt 0 [joyRightPin]) (transitionToStatusMenu semiAutoAt29))"
proof -
  have h: "shotCountWithinLimit semiAutoAt29"
    by (simp add: shotCountWithinLimit_def semiAutoAt29_fields)
  have m: "status semiAutoAt29 \<noteq> STATUS_MENU"
    by (simp add: semiAutoAt29_fields)
  have c: "core (displayFirstMenuPage semiAutoAt29) = core semiAutoAt29"
    "tempSettings (displayFirstMenuPage semiAutoAt29) = settings semiAutoAt29"
    by (simp_all add: displayFirstMenuPage_def)
  have n: "status (transitionToStatusMenu semiAutoAt29) = STATUS_MENU"
    "shotCount (transitionToStatusMenu semiAutoAt29) = 29"
    "shotLimit (settings (transitionToStatusMenu semiAutoAt29)) = 30"
    "shotLimit (tempSettings (transitionToStatusMenu semiAutoAt29)) = 30"
    using core_fields [OF c(1)] c(2)
    by (simp_all add: transitionToStatusMenu_def semiAutoAt29_fields)
  show ?thesis
    using h m n shotCount_bound_preserved [of semiAutoAt29 "inputsAt 0 [triggerPin]"]
      shotCount_bound_preserved [of "transitionToStatusMenu semiAutoAt29" "inputsAt 0 [joyRightPin]"]
    by (simp add: shotCountWithinLimit_def)
qed

text \<open>
  The run \<open>menuLowersLimit\<close> from power-up: before its last iteration the machine is in
  MENU with 3 shots counted, a limit of 30 in force and a pending limit of 1; the last
  iteration saves, and leaves the machine in IDLE with \<open>shotCount = 3\<close> above
  \<open>shotLimit = 1\<close>.
\<close>

theorem menu_commit_counterexample:
  "limitView (run (butlast menuLowersLimit) (setupFcu None)) = (STATUS_MENU, 3, 30, 1)
   \<and> shotCountWithinLimit (run (butlast menuLowersLimit) (setupFcu None))
   \<and> limitView (run menuLowersLimit (setupFcu None)) = (STATUS_IDLE, 3, 1, 1)
   \<and> \<not> shotCountWithinLimit (run menuLowersLimit (setupFcu None))"
proof -
  have a: "limitView (run (butlast menuLowersLimit) (setupFcu None)) = (STATUS_MENU, 3, 30, 1)"
    by code_simp
  have b: "limitView (run menuLowersLimit (setupFcu None)) = (STATUS_IDLE, 3, 1, 1)"
    by code_simp
  show ?thesis
    using a b by (simp add: limitView_def shotCountWithinLimit_def word_le_nat_alt)
qed

section \<open>What a state handler reads\<close>

lemma manageCursorUpDown_clock_only:
  "handlerMillis inp = handlerMillis inp' \<Longrightarrow>
   manageCursorUpDown inp b d s = manageCursorUpDown inp' b d s"
  by (simp add: manageCursorUpDown_def cong: if_cong prod.case_cong)

lemma manageStatusMenu_clock_only:
  assumes "handlerMillis inp = handlerMillis inp'"
  shows "manageStatusMenu inp s = manageStatusMenu inp' s"
proof -
  have "updateMenuSettingUInt inp t = updateMenuSettingUInt inp' t" for t
    by (simp add: updateMenuSettingUInt_def manageCursorUpDown_clock_only [OF assms]
        cong: if_cong prod.case_cong)
  then have "updateMenuSetting inp t = updateMenuSetting inp' t" for t
    by (simp add: updateMenuSetting_def cong: if_cong prod.case_cong SettingValue.case_cong)
  then have "updateMenu inp s = updateMenu inp' s"
    by (simp add: updateMenu_def)
  then show ?thesis
    by (simp add: manageStatusMenu_def)
qed

text \<open>
  C3, as the code has it. \<^verbatim>\<open>loop()\<close> polls the buttons once, first, and then runs
  one state handler. The fire selector, the magazine switch and the joystick are
  consulted only through the debounced states of that poll: what a handler does depends
  on the raw pins only through the trigger pin, which \<^verbatim>\<open>isTriggerPressed\<close> reads with
  \<^verbatim>\<open>digitalRead\<close> at the moment of the decision (and on the clock, in the menu). The
  handlers of BINARY_TRIGGER_TAIL, RELOAD and MENU read no raw pin at all.
\<close>

theorem handlers_read_only_raw_trigger:
  "(handlerPins inp triggerPin = handlerPins inp' triggerPin
      \<and> handlerMillis inp = handlerMillis inp' \<longrightarrow>
    dispatch inp s = dispatch inp' s)
   \<and> (handlerMillis inp = handlerMillis inp'
        \<and> (status s = STATUS_BINARY_TRIGGER_TAIL \<or> status s = STATUS_RELOAD
             \<or> status s = STATUS_MENU) \<longrightarrow>
    dispatch inp s = dispatch inp' s)"
proof -
  have trig: "isTriggerPressed inp = isTriggerPressed inp'"
    if "handlerPins inp triggerPin = handlerPins inp' triggerPin"
    using that by (simp add: isTriggerPressed_def)
  have a: "dispatch inp s = dispatch inp' s"
    if "handlerPins inp triggerPin = handlerPins inp' triggerPin"
      and m: "handlerMillis inp = handlerMillis inp'"
    using trig [OF that(1)] manageStatusMenu_clock_only [OF m, of s]
    by (simp add: dispatch_def manageStatusIdle_def manageStatusFullAuto_def
        manageStatusSemiAuto_def cong: if_cong prod.case_cong)
  have b: "dispatch inp s = dispatch inp' s"
    if m: "handlerMillis inp = handlerMillis inp'"
      and "status s = STATUS_BINARY_TRIGGER_TAIL \<or> status s = STATUS_RELOAD
             \<or> status s = STATUS_MENU"
    using that(2) manageStatusMenu_clock_only [OF m, of s]
    by (auto simp: dispatch_def)
  show ?thesis using a b by blast
qed

theorem handlers_read_only_raw_trigger_witness:
  "handlerPins (inputsAt 0 [triggerPin]) triggerPin
     = handlerPins (inputsAt 0 [triggerPin, joyUpPin, magazinePin]) triggerPin
   \<and> handlerMillis (inputsAt 0 [triggerPin])
     = handlerMillis (inputsAt 0 [triggerPin, joyUpPin, magazinePin])
   \<and> dispatch (inputsAt 0 [triggerPin]) (setupFcu None)
     = dispatch (inputsAt 0 [triggerPin, joyUpPin, magazinePin]) (setupFcu None)
   \<and> status (transitionToStatusReload (setupFcu None)) = STATUS_RELOAD
   \<and> dispatch (inputsAt 0 [triggerPin]) (transitionToStatusReload (setupFcu None))
     = dispatch (inputsAt 0 []) (transitionToStatusReload (setupFcu None))"
  using handlers_read_only_raw_trigger [of "inputsAt 0 [triggerPin]"
          "inputsAt 0 [triggerPin, joyUpPin, magazinePin]" "setupFcu None"]
    handlers_read_only_raw_trigger [of "inputsAt 0 [triggerPin]"
          "inputsAt 0 []" "transitionToStatusReload (setupFcu None)"]
  by (simp add: inputsAt_def pinsOf_def transitionToStatusReload_def)

text \<open>
  Two iterations from the same state at power-up, with the same polls and so the same
  debounced snapshot: the handler of IDLE samples the trigger pin itself, and goes to
  SEMI_AUTO when it reads pressed and stays in IDLE when it reads released.
\<close>

theorem raw_trigger_counterexample:
  "pollMillis triggerReleasedAtHandler = pollMillis (inputsAt 0 [triggerPin])
   \<and> pollPins triggerReleasedAtHandler = pollPins (inputsAt 0 [triggerPin])
   \<and> handlerMillis triggerReleasedAtHandler = handlerMillis (inputsAt 0 [triggerPin])
   \<and> buttons (readAllButtons triggerReleasedAtHandler (setupFcu None))
       = buttons (readAllButtons (inputsAt 0 [triggerPin]) (setupFcu None))
   \<and> status (loop (inputsAt 0 [triggerPin]) (setupFcu None)) = STATUS_SEMI_AUTO
   \<and> status (loop triggerReleasedAtHandler (setupFcu None)) = STATUS_IDLE"
proof -
  have a: "buttons (readAllButtons triggerReleasedAtHandler (setupFcu None))
       = buttons (readAllButtons (inputsAt 0 [triggerPin]) (setupFcu None))"
    by code_simp
  have b: "status (loop (inputsAt 0 [triggerPin]) (setupFcu None)) = STATUS_SEMI_AUTO"
    by code_simp
  have c: "status (loop triggerReleasedAtHandler (setupFcu None)) = STATUS_IDLE"
    by code_simp
  show ?thesis
    using a b c by (simp add: triggerReleasedAtHandler_def inputsAt_def)
qed

end
